(* ===== verification/Prelude.thy ===== *)
theory Prelude
  imports Main "HOL-Library.Word"
begin

text \<open>
  What the component theories share: the machine types of the code, the result type in which
  every throw and every undefined behaviour of the C++ is a value, and the byte encodings of
  machine words (little and big endian) with their arithmetic.

  \<^item> \<open>u8\<close>, \<open>u16\<close>, \<open>u32\<close>, \<open>u64\<close> are the fixed-width unsigned integers of the source, \<open>i32\<close> is
    its \<open>int\<close> (a 32-bit word read with \<open>sint\<close>); their operations wrap as in C++.
  \<^item> \<open>'a res\<close> is the outcome of an operation that may throw: \<open>Inl (Throw e)\<close> is a C++
    exception, which a \<open>try\<close> block catches; \<open>Inl Undefined\<close> is undefined behaviour, which no
    \<open>try\<close> block catches; \<open>Inr x\<close> is the value.
  \<^item> \<open>byte_at v i\<close> is the cast \<open>static_cast<uint8_t>(v >> (8 * i))\<close> of the source, and
    \<open>le_value\<close>, \<open>be_value\<close> read a byte string as a number.
\<close>

unbundle bit_operations_syntax

section \<open>Machine types\<close>

type_synonym u8 = "8 word"
type_synonym u16 = "16 word"
type_synonym u32 = "32 word"
type_synonym u64 = "64 word"
type_synonym i32 = "32 word"
type_synonym bytes = "u8 list"

named_theorems byte_simps \<open>facts on the bytes of machine words\<close>
named_theorems res_simps \<open>case analysis of fallible computations\<close>

section \<open>Results: exceptions and undefined behaviour\<close>

datatype exn =
    Runtime_error string  \<comment> \<open>a \<open>std::runtime_error\<close> of the program itself\<close>
  | Json_error            \<comment> \<open>any exception of the JSON library\<close>
  | Std_error             \<comment> \<open>any other exception of the standard library\<close>

datatype fault = Throw exn | Undefined

type_synonym 'a res = "fault + 'a"

abbreviation throw :: "string \<Rightarrow> 'a res" where
  "throw msg \<equiv> Inl (Throw (Runtime_error msg))"

definition bindR :: "'a res \<Rightarrow> ('a \<Rightarrow> 'b res) \<Rightarrow> 'b res" where
  "bindR m f = (case m of Inl e \<Rightarrow> Inl e | Inr x \<Rightarrow> f x)"

definition catchR :: "'a res \<Rightarrow> (exn \<Rightarrow> 'a res) \<Rightarrow> 'a res" where
  "catchR m h = (case m of Inl (Throw e) \<Rightarrow> h e | _ \<Rightarrow> m)"

fun mapR :: "('a \<Rightarrow> 'b res) \<Rightarrow> 'a list \<Rightarrow> 'b list res" where
  "mapR f [] = Inr []"
| "mapR f (x # xs) = bindR (f x) (\<lambda>y. bindR (mapR f xs) (\<lambda>ys. Inr (y # ys)))"

lemma bindR_simps [simp]:
  "bindR (Inl e) f = Inl e" "bindR (Inr x) f = f x"
  by (simp_all add: bindR_def)

lemma catchR_simps [simp]:
  "catchR (Inl (Throw e)) h = h e" "catchR (Inl Undefined) h = Inl Undefined"
  "catchR (Inr x) h = Inr x"
  by (simp_all add: catchR_def)

lemma bindR_eq_Inr [res_simps]:
  "(bindR m f = Inr y) = (\<exists>x. m = Inr x \<and> f x = Inr y)"
  by (cases m) auto

lemma bindR_eq_Inl [res_simps]:
  "(bindR m f = Inl e) = (m = Inl e \<or> (\<exists>x. m = Inr x \<and> f x = Inl e))"
  by (cases m) auto

lemma bindR_assoc: "bindR (bindR m f) g = bindR m (\<lambda>x. bindR (f x) g)"
  by (cases m) auto

lemma bindR_cong [fundef_cong]:
  "m = m' \<Longrightarrow> (\<And>x. m' = Inr x \<Longrightarrow> f x = g x) \<Longrightarrow> bindR m f = bindR m' g"
  by (cases m') auto

lemma catchR_eq_Inr [res_simps]:
  "(catchR m h = Inr y) = (m = Inr y \<or> (\<exists>e. m = Inl (Throw e) \<and> h e = Inr y))"
  by (auto simp: catchR_def split: sum.splits fault.splits)

lemma mapR_eq_Inr [res_simps]:
  "(mapR f xs = Inr ys) = list_all2 (\<lambda>x y. f x = Inr y) xs ys"
proof (induction xs arbitrary: ys)
  case Nil
  then show ?case by auto
next
  case (Cons x xs)
  then show ?case by (cases ys) (auto simp: res_simps)
qed

text \<open>
  What holds of every value a computation returns, with one rule per construct, so that a
  property of a long handler is proved by its control flow.
\<close>

named_theorems ensures_rules \<open>introduction rules for ensures\<close>

definition ensures :: "'a res \<Rightarrow> ('a \<Rightarrow> bool) \<Rightarrow> bool" where
  "ensures m P = (\<forall>x. m = Inr x \<longrightarrow> P x)"

lemma ensuresD: "ensures m P \<Longrightarrow> m = Inr x \<Longrightarrow> P x"
  by (simp add: ensures_def)

lemma ensures_mono: "ensures m P \<Longrightarrow> (\<And>x. P x \<Longrightarrow> Q x) \<Longrightarrow> ensures m Q"
  by (simp add: ensures_def)

lemma ensures_pairI: "(\<And>a b. m = Inr (a, b) \<Longrightarrow> P a b) \<Longrightarrow> ensures m (\<lambda>(a, b). P a b)"
  by (auto simp: ensures_def)

lemma ensures_Inl [ensures_rules, simp]: "ensures (Inl f) P"
  by (simp add: ensures_def)

lemma ensures_Inr [ensures_rules]: "P x \<Longrightarrow> ensures (Inr x) P"
  by (simp add: ensures_def)

lemma ensures_bindR [ensures_rules]:
  "(\<And>x. m = Inr x \<Longrightarrow> ensures (f x) P) \<Longrightarrow> ensures (bindR m f) P"
  by (cases m) (auto simp: ensures_def)

lemma ensures_if [ensures_rules]:
  "(b \<Longrightarrow> ensures m P) \<Longrightarrow> (\<not> b \<Longrightarrow> ensures n P) \<Longrightarrow> ensures (if b then m else n) P"
  by simp

lemma ensures_option [ensures_rules]:
  "(x = None \<Longrightarrow> ensures m P) \<Longrightarrow> (\<And>y. x = Some y \<Longrightarrow> ensures (f y) P) \<Longrightarrow>
     ensures (case x of None \<Rightarrow> m | Some y \<Rightarrow> f y) P"
  by (cases x) auto

lemma ensures_prod [ensures_rules]:
  "(\<And>a b. x = (a, b) \<Longrightarrow> ensures (f a b) P) \<Longrightarrow> ensures (case x of (a, b) \<Rightarrow> f a b) P"
  by (cases x) auto

lemma ensures_sum [ensures_rules]:
  "(\<And>a. x = Inl a \<Longrightarrow> ensures (f a) P) \<Longrightarrow> (\<And>b. x = Inr b \<Longrightarrow> ensures (g b) P) \<Longrightarrow>
     ensures (case x of Inl a \<Rightarrow> f a | Inr b \<Rightarrow> g b) P"
  by (cases x) auto

lemma ensures_fault [ensures_rules]:
  "(\<And>e. x = Throw e \<Longrightarrow> ensures (f e) P) \<Longrightarrow> (x = Undefined \<Longrightarrow> ensures m P) \<Longrightarrow>
     ensures (case x of Throw e \<Rightarrow> f e | Undefined \<Rightarrow> m) P"
  by (cases x) auto

lemma ensures_Let [ensures_rules]: "(\<And>y. y = x \<Longrightarrow> ensures (f y) P) \<Longrightarrow> ensures (let y = x in f y) P"
  by simp

text \<open>
  A component that consumes a stream item by item: each item is accepted in every state that
  has seen some prefix, and leads to a state that has seen one item more. How the stream is
  cut into pieces then does not matter.
\<close>

fun foldR :: "('s \<Rightarrow> 'x \<Rightarrow> 's res) \<Rightarrow> 's \<Rightarrow> 'x list \<Rightarrow> 's res" where
  "foldR f s [] = Inr s"
| "foldR f s (x # xs) = bindR (f s x) (\<lambda>s'. foldR f s' xs)"

lemma foldR_append: "foldR f s (xs @ ys) = bindR (foldR f s xs) (\<lambda>s'. foldR f s' ys)"
  by (induction xs arbitrary: s) (auto simp: bindR_assoc)

locale absorber =
  fixes absorb :: "'s \<Rightarrow> 'x \<Rightarrow> 's res"
    and seen :: "'s \<Rightarrow> 'x list \<Rightarrow> bool"
  assumes absorb_ok: "seen s xs \<Longrightarrow> \<exists>s'. absorb s x = Inr s' \<and> seen s' (xs @ [x])"
begin

lemma absorb_all: "seen s xs \<Longrightarrow> \<exists>s'. foldR absorb s ys = Inr s' \<and> seen s' (xs @ ys)"
proof (induction ys arbitrary: s xs)
  case Nil
  then show ?case by simp
next
  case (Cons y ys)
  obtain s1 where s1: "absorb s y = Inr s1" "seen s1 (xs @ [y])"
    using absorb_ok [OF Cons.prems] by blast
  show ?case using Cons.IH [OF s1(2)] s1(1) by simp
qed

lemma absorb_chunks:
  "seen s xs \<Longrightarrow>
     \<exists>s'. foldR (foldR absorb) s yss = Inr s' \<and> foldR absorb s (concat yss) = Inr s'
        \<and> seen s' (xs @ concat yss)"
proof (induction yss arbitrary: s xs)
  case Nil
  then show ?case by simp
next
  case (Cons ys yss)
  obtain s1 where s1: "foldR absorb s ys = Inr s1" "seen s1 (xs @ ys)"
    using absorb_all [OF Cons.prems] by blast
  show ?case using Cons.IH [OF s1(2)] s1(1) by (simp add: foldR_append)
qed

end

section \<open>Bytes of machine words\<close>

definition byte_at :: "'a::len word \<Rightarrow> nat \<Rightarrow> u8" where
  "byte_at v i = ucast (drop_bit (8 * i) v)"

primrec le_value :: "bytes \<Rightarrow> nat" where
  "le_value [] = 0"
| "le_value (b # bs) = unat b + 256 * le_value bs"

definition be_value :: "bytes \<Rightarrow> nat" where
  "be_value bs = le_value (rev bs)"

lemma unat_byte_lt [simp]: "unat (b :: u8) < 256"
  using unsigned_less [of b] by simp

lemma unat_byte_le [simp]: "unat (b :: u8) \<le> 255"
  using unat_byte_lt [of b] by linarith

lemma unat_byte_at: "unat (byte_at v i) = unat v div 256 ^ i mod 256"
proof -
  have p: "(2::nat) ^ (8 * i) = 256 ^ i" by (simp add: power_mult)
  have "unat (byte_at v i) = take_bit 8 (drop_bit (8 * i) (unat v))"
    by (simp only: byte_at_def unsigned_ucast_eq unat_drop_bit_eq) simp
  then show ?thesis
    by (simp only: drop_bit_eq_div take_bit_eq_mod p) simp
qed

lemma bit_byte_at [byte_simps]:
  "bit (byte_at v i) n = (n < 8 \<and> bit v (8 * i + n))"
  by (auto simp: byte_at_def bit_simps)

lemma div_256_power: "v div 256 ^ k = drop_bit (8 * k) (v :: nat)"
  by (simp add: drop_bit_eq_div power_mult)

lemma byte_at_of_nat:
  assumes "8 * k + 8 \<le> LENGTH('a::len)"
  shows "byte_at (of_nat v :: 'a word) k = of_nat (v div 256 ^ k)"
proof (rule bit_eqI)
  fix n assume "possible_bit TYPE(u8) n"
  then have n: "n < 8" by simp
  with assms have "8 * k + n < LENGTH('a)" by simp
  with n show "bit (byte_at (of_nat v :: 'a word) k) n = bit (of_nat (v div 256 ^ k) :: u8) n"
    by (simp add: byte_simps div_256_power bit_simps)
qed

lemma byte_at_unat:
  fixes v :: "'a::len word"
  assumes "8 * k + 8 \<le> LENGTH('a)"
  shows "byte_at v k = of_nat (unat v div 256 ^ k)"
  using byte_at_of_nat [OF assms, of "unat v"] by simp

lemma le_value_append: "le_value (xs @ ys) = le_value xs + 256 ^ length xs * le_value ys"
  by (induction xs) (auto simp: algebra_simps)

lemma le_value_bound: "le_value bs < 256 ^ length bs"
proof (induction bs)
  case Nil
  then show ?case by simp
next
  case (Cons b bs)
  have "unat b + 256 * le_value bs < 256 * Suc (le_value bs)"
    using unat_byte_lt [of b] by simp
  also have "\<dots> \<le> 256 * 256 ^ length bs"
    using Cons by simp
  finally show ?case by simp
qed

lemma le_value_inj:
  "length xs = length ys \<Longrightarrow> le_value xs = le_value ys \<Longrightarrow> xs = ys"
proof (induction xs ys rule: list_induct2)
  case Nil
  then show ?case by simp
next
  case (Cons x xs y ys)
  have "(unat x + 256 * le_value xs) mod 256 = (unat y + 256 * le_value ys) mod 256"
    using Cons.prems by simp
  then have xy: "unat x = unat y" by simp
  then have "le_value xs = le_value ys" using Cons.prems by simp
  with xy Cons.IH show ?case by (simp add: word_unat_eq_iff)
qed

lemma le_value_replicate_0 [simp]: "le_value (replicate n 0) = 0"
  by (induction n) auto

lemma le_value_eq_0: "(le_value bs = 0) = (\<forall>b \<in> set bs. b = 0)"
  by (induction bs) (auto simp: unat_eq_0)

lemma le_value_bytes: "le_value (map (byte_at v) [0..<n]) = unat v mod 256 ^ n"
proof (induction n)
  case 0
  then show ?case by simp
next
  case (Suc n)
  have "le_value (map (byte_at v) [0..<Suc n])
      = unat v mod 256 ^ n + 256 ^ n * (unat v div 256 ^ n mod 256)"
    by (simp add: le_value_append Suc unat_byte_at)
  also have "\<dots> = unat v mod (256 ^ n * 256)"
    by (simp only: mod_mult2_eq)
  finally show ?case by (simp add: mult.commute)
qed

lemma le_value_bytes_full:
  fixes v :: "'a::len word"
  assumes "LENGTH('a) = 8 * n"
  shows "le_value (map (byte_at v) [0..<n]) = unat v"
proof -
  have "(256::nat) ^ n = 2 ^ LENGTH('a)"
    by (simp add: assms power_mult)
  then show ?thesis
    using unsigned_less [of v] by (simp add: le_value_bytes)
qed

lemma word_eq_byte_at:
  fixes v w :: "'a::len word"
  assumes "LENGTH('a) = 8 * n" and "\<And>i. i < n \<Longrightarrow> byte_at v i = byte_at w i"
  shows "v = w"
proof -
  have "map (byte_at v) [0..<n] = map (byte_at w) [0..<n]"
    using assms(2) by simp
  then have "unat v = unat w"
    by (metis le_value_bytes_full [OF assms(1)])
  then show ?thesis by (simp add: word_unat_eq_iff)
qed

text \<open>
  The loops of the source that assemble a word from bytes, least significant first:
  \<open>x |= static_cast<T>(b[i]) << (8 * i)\<close>.
\<close>

fun or_bytes :: "bytes \<Rightarrow> nat \<Rightarrow> 'a::len word \<Rightarrow> 'a word" where
  "or_bytes [] i acc = acc"
| "or_bytes (b # bs) i acc = or_bytes bs (Suc i) (acc OR push_bit (8 * i) (ucast b))"

abbreviation word_of_le :: "bytes \<Rightarrow> 'a::len word" where
  "word_of_le bs \<equiv> or_bytes bs 0 0"

lemma bit_or_bytes:
  "bit (or_bytes bs i acc :: 'a::len word) n =
     (bit acc n \<or> n < LENGTH('a) \<and> 8 * i \<le> n \<and> n < 8 * (i + length bs)
        \<and> bit (bs ! (n div 8 - i)) (n mod 8))"
proof (induction bs arbitrary: i acc)
  case Nil
  then show ?case by auto
next
  case (Cons b bs)
  have split: "(8 * i \<le> n \<and> n < 8 * (i + length (b # bs))) =
      (n div 8 = i \<or> 8 * Suc i \<le> n \<and> n < 8 * (Suc i + length bs))" by auto
  have here: "n div 8 = i \<Longrightarrow> n - 8 * i = n mod 8"
    by (metis minus_mult_div_eq_mod)
  have b8: "bit b (n - 8 * i) \<Longrightarrow> n - 8 * i < 8"
    by (auto dest: bit_imp_le_length)
  show ?case
  proof (cases "n div 8 = i")
    case True
    then show ?thesis
      using here by (auto simp: Cons bit_simps)
  next
    case False
    then have "8 * i \<le> n \<Longrightarrow> \<not> bit b (n - 8 * i)"
      using b8 by (metis div_nat_eqI le_add_diff_inverse less_diff_conv2 mult.commute
          mult_Suc_right nat_add_left_cancel_less)
    with False split show ?thesis
      by (auto simp: Cons bit_simps Suc_diff_le nth_Cons')
  qed
qed

lemma byte_at_word_of_le:
  assumes "i < length bs" "8 * length bs \<le> LENGTH('a::len)"
  shows "byte_at (word_of_le bs :: 'a word) i = bs ! i"
proof (rule bit_eqI)
  fix n assume "possible_bit TYPE(u8) n"
  then have n: "n < 8" by (simp add: possible_bit_word)
  have "(8 * i + n) div 8 = i" "(8 * i + n) mod 8 = n" "8 * i + n < LENGTH('a)"
    "8 * i + n < 8 * length bs"
    using n assms by auto
  then show "bit (byte_at (word_of_le bs :: 'a word) i) n = bit (bs ! i) n"
    using n by (simp add: byte_simps bit_or_bytes)
qed

lemma unat_word_of_le:
  assumes "8 * length bs \<le> LENGTH('a::len)"
  shows "unat (word_of_le bs :: 'a word) = le_value bs"
proof -
  have *: "map (byte_at (word_of_le bs :: 'a word)) [0..<length bs] = bs"
    by (rule nth_equalityI) (use assms in \<open>auto simp: byte_at_word_of_le\<close>)
  have "drop_bit (8 * length bs) (word_of_le bs :: 'a word) = 0"
    by (rule bit_eqI) (auto simp: bit_simps bit_or_bytes)
  then have "drop_bit (8 * length bs) (unat (word_of_le bs :: 'a word)) = 0"
    by (metis unat_0 unat_drop_bit_eq)
  then have "unat (word_of_le bs :: 'a word) < 256 ^ length bs"
    by (simp add: drop_bit_eq_div div_eq_0_iff power_mult)
  then show ?thesis
    using le_value_bytes [of "word_of_le bs :: 'a word" "length bs"] * by simp
qed

lemma word_of_le_bytes:
  fixes v :: "'a::len word"
  assumes "LENGTH('a) = 8 * n"
  shows "word_of_le (map (byte_at v) [0..<n]) = v"
  by (rule word_eq_byte_at [OF assms]) (use assms in \<open>simp add: byte_at_word_of_le\<close>)

text \<open>The four casts the source writes out for a 32-bit value, in both orders.\<close>

definition le32 :: "u32 \<Rightarrow> bytes" where
  "le32 v = [byte_at v 0, byte_at v 1, byte_at v 2, byte_at v 3]"

lemma upt_4: "[0..<4] = [0, 1, 2, Suc (Suc (Suc 0))]"
  by (simp add: numeral_eq_Suc)

lemma le32_map: "le32 v = map (byte_at v) [0..<4]"
  by (simp add: le32_def upt_4 numeral_3_eq_3)

lemma length_le32 [simp]: "length (le32 v) = 4"
  by (simp add: le32_def)

lemma le_value_le32 [byte_simps]: "le_value (le32 v) = unat v"
  unfolding le32_map by (rule le_value_bytes_full) simp

lemma word_of_le_le32 [byte_simps]: "word_of_le (le32 v) = v"
  unfolding le32_map by (rule word_of_le_bytes) simp

lemma le32_inj [simp]: "(le32 v = le32 w) = (v = w)"
  by (metis word_of_le_le32)

section \<open>Strings\<close>

text \<open>\<open>std::to_string\<close> of an unsigned value and \<open>c_str()\<close> as a C function reads it.\<close>

fun to_string :: "nat \<Rightarrow> string" where
  "to_string n = (if n < 10 then [char_of (48 + n)] else to_string (n div 10) @ [char_of (48 + n mod 10)])"

declare to_string.simps [simp del]

definition c_str :: "string \<Rightarrow> string" where
  "c_str s = takeWhile (\<lambda>c. c \<noteq> CHR 0x00) s"

text \<open>Decimal digits are read back by \<open>dec_value\<close>.\<close>

definition dec_value :: "string \<Rightarrow> nat" where
  "dec_value s = foldl (\<lambda>n c. 10 * n + (of_char c - 48)) 0 s"

lemma digit_char: "d < 10 \<Longrightarrow> of_char (char_of (48 + d) :: char) = 48 + (d :: nat)"
  by (simp add: of_char_of)

lemma dec_value_to_string [simp]: "dec_value (to_string n) = n"
proof (induction n rule: to_string.induct)
  case (1 n)
  then show ?case by (cases "n < 10") (simp_all add: to_string.simps [of n] dec_value_def digit_char)
qed

text \<open>Characters that are neither blanks nor control characters.\<close>

definition visible :: "char \<Rightarrow> bool" where
  "visible c = (32 < (of_char c :: nat))"

lemma visible_digit: "d < 10 \<Longrightarrow> visible (char_of (48 + (d :: nat)))"
  by (simp add: visible_def digit_char)

lemma to_string_visible: "c \<in> set (to_string n) \<Longrightarrow> visible c"
proof (induction n rule: to_string.induct)
  case (1 n)
  then show ?case by (cases "n < 10") (auto simp: to_string.simps [of n] visible_digit)
qed

lemma to_string_nonempty [simp]: "to_string n \<noteq> []"
  by (subst to_string.simps) simp

end
