(* ===== verification/Double.thy ===== *)
theory Double
  imports Complex_Main Prelude
begin

text \<open>
  The type \<open>double\<close> of the source: IEEE 754 binary64 with round to nearest, ties to even. A
  finite double is the rational number it denotes; every arithmetic operation computes the exact
  rational result and rounds it once with \<open>rnd\<close> (53 significant bits, exponents from -1074,
  overflow to infinity). Zero carries no sign: no operation of the source tells its two zeros
  apart. \<open>to_u64\<close> is the C++ conversion to \<open>uint64_t\<close>: it truncates, and a value that does not
  fit (or a NaN) is undefined behaviour.

  The lemmas the components use: rounding is monotone, it is exact on integers below 2 to the 53
  times a power of two, and the quotient operations are monotone in both arguments.
\<close>

section \<open>Rounding\<close>

datatype double = Fin rat | Inf bool | NaN  \<comment> \<open>\<open>Inf True\<close> is minus infinity\<close>

fun nbits :: "nat \<Rightarrow> nat" where
  "nbits n = (if n = 0 then 0 else Suc (nbits (n div 2)))"

declare nbits.simps [simp del]

text \<open>\<open>log2_floor q\<close> is the largest \<open>e\<close> with \<open>2 powi e \<le> q\<close>, for a positive \<open>q\<close>.\<close>

definition log2_floor :: "rat \<Rightarrow> int" where
  "log2_floor q =
     (if 1 \<le> q then int (nbits (nat \<lfloor>q\<rfloor>)) - 1 else - int (nbits (nat (\<lceil>1 / q\<rceil> - 1))))"

definition round_half_even :: "rat \<Rightarrow> int" where
  "round_half_even q =
     (let f = \<lfloor>q\<rfloor>; r = q - of_int f in
      if r < 1 / 2 then f else if 1 / 2 < r then f + 1 else if even f then f else f + 1)"

definition ulp_exp :: "rat \<Rightarrow> int" where
  "ulp_exp q = max (log2_floor q - 52) (-1074)"

definition rnd_pos :: "rat \<Rightarrow> rat" where
  "rnd_pos q = of_int (round_half_even (q / 2 powi ulp_exp q)) * 2 powi ulp_exp q"

definition rnd :: "rat \<Rightarrow> double" where
  "rnd q =
     (if q = 0 then Fin 0
      else let r = rnd_pos \<bar>q\<bar> in
        if 2 ^ 1024 \<le> r then Inf (q < 0) else Fin (if q < 0 then - r else r))"

section \<open>Operations\<close>

fun dle :: "double \<Rightarrow> double \<Rightarrow> bool" where
  "dle NaN _ = False"
| "dle _ NaN = False"
| "dle (Fin a) (Fin b) = (a \<le> b)"
| "dle (Inf s) (Inf t) = (s \<or> \<not> t)"
| "dle (Fin a) (Inf t) = (\<not> t)"
| "dle (Inf s) (Fin b) = s"

definition dlt :: "double \<Rightarrow> double \<Rightarrow> bool" where
  "dlt x y \<longleftrightarrow> dle x y \<and> \<not> dle y x"

fun dadd :: "double \<Rightarrow> double \<Rightarrow> double" where
  "dadd (Fin a) (Fin b) = rnd (a + b)"
| "dadd (Inf s) (Inf t) = (if s = t then Inf s else NaN)"
| "dadd (Inf s) (Fin b) = Inf s"
| "dadd (Fin a) (Inf t) = Inf t"
| "dadd _ _ = NaN"

fun dmul :: "double \<Rightarrow> double \<Rightarrow> double" where
  "dmul (Fin a) (Fin b) = rnd (a * b)"
| "dmul (Inf s) (Inf t) = Inf (s \<noteq> t)"
| "dmul (Inf s) (Fin b) = (if b = 0 then NaN else Inf (s \<noteq> (b < 0)))"
| "dmul (Fin a) (Inf t) = (if a = 0 then NaN else Inf ((a < 0) \<noteq> t))"
| "dmul _ _ = NaN"

fun ddiv :: "double \<Rightarrow> double \<Rightarrow> double" where
  "ddiv (Fin a) (Fin b) = (if b = 0 then (if a = 0 then NaN else Inf (a < 0)) else rnd (a / b))"
| "ddiv (Inf s) (Inf t) = NaN"
| "ddiv (Inf s) (Fin b) = Inf (s \<noteq> (b < 0))"
| "ddiv (Fin a) (Inf t) = Fin 0"
| "ddiv _ _ = NaN"

definition d_of_u64 :: "u64 \<Rightarrow> double" where
  "d_of_u64 n = rnd (of_nat (unat n))"

fun to_u64 :: "double \<Rightarrow> u64 res" where
  "to_u64 (Fin q) = (if - 1 < q \<and> q < 2 ^ 64 then Inr (of_nat (nat \<lfloor>q\<rfloor>)) else Inl Undefined)"
| "to_u64 _ = Inl Undefined"

text \<open>The values a \<open>double\<close> can hold: those that rounding leaves alone.\<close>

fun is_double :: "double \<Rightarrow> bool" where
  "is_double (Fin q) = (rnd q = Fin q)"
| "is_double _ = True"

section \<open>Rounding is monotone\<close>

lemma round_half_even_bounds: "\<lfloor>q\<rfloor> \<le> round_half_even q" "round_half_even q \<le> \<lfloor>q\<rfloor> + 1"
  by (auto simp: round_half_even_def Let_def)

lemma round_half_even_int [simp]: "round_half_even (of_int n) = n"
  by (simp add: round_half_even_def)

lemma round_half_even_mono: "x \<le> y \<Longrightarrow> round_half_even x \<le> round_half_even y"
proof (cases "\<lfloor>x\<rfloor> = \<lfloor>y\<rfloor>")
  case True
  assume "x \<le> y"
  with True show ?thesis by (auto simp: round_half_even_def Let_def)
next
  case False
  assume "x \<le> y"
  then have "\<lfloor>x\<rfloor> \<le> \<lfloor>y\<rfloor>" by (rule floor_mono)
  with False have "\<lfloor>x\<rfloor> + 1 \<le> \<lfloor>y\<rfloor>" by simp
  then show ?thesis
    using round_half_even_bounds [of x] round_half_even_bounds [of y] by linarith
qed

lemma nbits_bounds: "0 < n \<Longrightarrow> 2 ^ (nbits n - 1) \<le> n \<and> n < 2 ^ nbits n"
proof (induction n rule: nbits.induct)
  case (1 n)
  show ?case
  proof (cases "n div 2 = 0")
    case True
    with "1.prems" have "n = 1" by simp
    then show ?thesis by (simp add: nbits.simps)
  next
    case False
    with "1.IH" "1.prems" have *: "2 ^ (nbits (n div 2) - 1) \<le> n div 2" "n div 2 < 2 ^ nbits (n div 2)"
      by simp_all
    obtain k where k: "nbits (n div 2) = Suc k"
      using False by (simp add: nbits.simps [of "n div 2"])
    have "nbits n = Suc (Suc k)" using k "1.prems" by (simp add: nbits.simps [of n])
    then show ?thesis using * k by auto
  qed
qed

lemma log2_floor_bounds:
  assumes "0 < q"
  shows "2 powi log2_floor q \<le> q" "q < 2 powi (log2_floor q + 1)"
proof -
  have "2 powi log2_floor q \<le> q \<and> q < 2 powi (log2_floor q + 1)"
  proof (cases "1 \<le> q")
    case True
    define n where "n = nat \<lfloor>q\<rfloor>"
    have n: "0 < n" "of_nat n \<le> q" "q < of_nat n + 1"
      using True by (simp_all add: n_def le_floor_iff) linarith+
    have "nbits n = Suc (nbits n - 1)" using n(1) by (simp add: nbits.simps [of n])
    then have e: "2 powi log2_floor q = (2::rat) ^ (nbits n - 1)" "2 powi (log2_floor q + 1) = (2::rat) ^ nbits n"
      using True by (simp_all add: log2_floor_def n_def [symmetric] power_int_def nat_diff_distrib)
    have "(2::rat) ^ (nbits n - 1) \<le> of_nat n" "of_nat n + 1 \<le> (2::rat) ^ nbits n"
      using nbits_bounds [OF n(1)] by (metis of_nat_le_iff of_nat_power of_nat_numeral,
        metis Suc_leI of_nat_Suc of_nat_le_iff of_nat_power of_nat_numeral add.commute)
    with n e show ?thesis by linarith
  next
    case False
    define r where "r = 1 / q"
    define n where "n = nat (\<lceil>r\<rceil> - 1)"
    have r: "1 < r" using False assms by (simp add: r_def)
    have n: "0 < n" "of_nat n < r" "r \<le> of_nat n + 1"
      using r by (simp_all add: n_def) linarith+
    have "nbits n = Suc (nbits n - 1)" using n(1) by (simp add: nbits.simps [of n])
    then have e: "2 powi log2_floor q = 1 / (2::rat) ^ nbits n"
      "2 powi (log2_floor q + 1) = 1 / (2::rat) ^ (nbits n - 1)"
      using False
      by (auto simp: log2_floor_def n_def r_def power_int_def nat_diff_distrib field_simps)
    have "(2::rat) ^ (nbits n - 1) \<le> of_nat n" "of_nat n + 1 \<le> (2::rat) ^ nbits n"
      using nbits_bounds [OF n(1)] by (metis of_nat_le_iff of_nat_power of_nat_numeral,
        metis Suc_leI of_nat_Suc of_nat_le_iff of_nat_power of_nat_numeral add.commute)
    with n have "(2::rat) ^ (nbits n - 1) < r" "r \<le> 2 ^ nbits n" by linarith+
    then show ?thesis
      unfolding e using assms by (simp add: r_def field_simps)
  qed
  then show "2 powi log2_floor q \<le> q" "q < 2 powi (log2_floor q + 1)" by auto
qed

lemma log2_floor_mono: "0 < p \<Longrightarrow> p \<le> q \<Longrightarrow> log2_floor p \<le> log2_floor q"
proof (rule ccontr)
  assume pq: "0 < p" "p \<le> q" and "\<not> log2_floor p \<le> log2_floor q"
  then have "log2_floor q + 1 \<le> log2_floor p" by simp
  then have "(2::rat) powi (log2_floor q + 1) \<le> 2 powi log2_floor p"
    by (rule power_int_increasing) simp
  then show False
    using pq log2_floor_bounds [of p] log2_floor_bounds [of q] by linarith
qed

lemma power_int_pos [simp]: "0 < (2::rat) powi e"
  by (rule zero_less_power_int) simp

lemma power_int_split: "(2::rat) powi a = 2 powi b * 2 powi (a - b)"
  by (simp add: power_int_diff)

lemma power_int_nonneg_int: "0 \<le> e \<Longrightarrow> (2::rat) powi e = of_int (2 ^ nat e)"
  by (simp add: power_int_def)

lemma rnd_pos_upper:
  assumes "0 < q" "q \<le> 2 powi e" "ulp_exp q \<le> e"
  shows "rnd_pos q \<le> 2 powi e"
proof -
  let ?u = "ulp_exp q"
  have "q / 2 powi ?u \<le> 2 powi (e - ?u)"
    using assms(2) power_int_split [of e ?u] by (simp add: field_simps)
  also have "\<dots> = of_int (2 ^ nat (e - ?u))"
    using assms(3) by (simp add: power_int_nonneg_int)
  finally have "round_half_even (q / 2 powi ?u) \<le> 2 ^ nat (e - ?u)"
    by (metis round_half_even_int round_half_even_mono)
  then have "(of_int (round_half_even (q / 2 powi ?u)) :: rat) \<le> of_int (2 ^ nat (e - ?u))"
    by (simp only: of_int_le_iff)
  also have "\<dots> = 2 powi (e - ?u)"
    using assms(3) by (simp add: power_int_nonneg_int)
  finally show ?thesis
    using power_int_split [of e ?u] by (simp add: rnd_pos_def mult.commute)
qed

lemma rnd_pos_lower:
  assumes "2 powi e \<le> q" "ulp_exp q \<le> e"
  shows "2 powi e \<le> rnd_pos q"
proof -
  let ?u = "ulp_exp q"
  have "of_int (2 ^ nat (e - ?u)) = (2::rat) powi (e - ?u)"
    using assms(2) by (simp add: power_int_nonneg_int)
  also have "\<dots> \<le> q / 2 powi ?u"
    using assms(1) power_int_split [of e ?u] by (simp add: field_simps)
  finally have "2 ^ nat (e - ?u) \<le> round_half_even (q / 2 powi ?u)"
    by (metis round_half_even_int round_half_even_mono)
  then have "(of_int (2 ^ nat (e - ?u)) :: rat) \<le> of_int (round_half_even (q / 2 powi ?u))"
    by (simp only: of_int_le_iff)
  then have "2 powi (e - ?u) \<le> (of_int (round_half_even (q / 2 powi ?u)) :: rat)"
    using assms(2) by (simp add: power_int_nonneg_int)
  then show ?thesis
    using power_int_split [of e ?u] by (simp add: rnd_pos_def mult.commute)
qed

lemma rnd_pos_mono:
  assumes "0 < p" "p \<le> q"
  shows "rnd_pos p \<le> rnd_pos q"
proof (cases "ulp_exp p = ulp_exp q")
  case True
  have "round_half_even (p / 2 powi ulp_exp q) \<le> round_half_even (q / 2 powi ulp_exp q)"
    by (rule round_half_even_mono) (use assms in \<open>simp add: divide_right_mono\<close>)
  then show ?thesis
    using True by (simp add: rnd_pos_def)
next
  case False
  have le: "ulp_exp p \<le> ulp_exp q"
    using log2_floor_mono [OF assms] by (simp add: ulp_exp_def)
  with False have lt: "ulp_exp p < ulp_exp q" by simp
  then have q: "ulp_exp q = log2_floor q - 52"
    by (auto simp: ulp_exp_def max_def split: if_splits)
  have "p < 2 powi (log2_floor p + 1)" by (rule log2_floor_bounds) (rule assms)
  also have "\<dots> \<le> 2 powi log2_floor q"
    by (rule power_int_increasing) (use lt q in \<open>simp_all add: ulp_exp_def\<close>)
  finally have "p \<le> 2 powi log2_floor q" by simp
  then have "rnd_pos p \<le> 2 powi log2_floor q"
    by (rule rnd_pos_upper [OF assms(1)]) (use lt q in simp)
  also have "\<dots> \<le> rnd_pos q"
    by (rule rnd_pos_lower) (use assms q log2_floor_bounds [of q] in simp_all)
  finally show ?thesis .
qed

lemma rnd_pos_nonneg:
  assumes "0 < q"
  shows "0 \<le> rnd_pos q"
proof -
  have "0 \<le> q / 2 powi ulp_exp q"
    using assms power_int_pos [of "ulp_exp q"] by (simp add: less_imp_le)
  then have "0 \<le> round_half_even (q / 2 powi ulp_exp q)"
    using round_half_even_mono [of 0] round_half_even_int [of 0] by fastforce
  then show ?thesis
    using power_int_pos [of "ulp_exp q"] by (simp add: rnd_pos_def less_imp_le)
qed

lemma rnd_pos_exact:
  assumes "0 < q" "q = of_int n * 2 powi k" "n < 2 ^ 53" "- 1074 \<le> k"
  shows "rnd_pos q = q"
proof -
  have "(of_int n :: rat) < of_int (2 ^ 53)" using assms(3) by (simp only: of_int_less_iff)
  then have "q < 2 powi (k + 53)"
    using assms(2) by (simp add: power_int_add)
  then have "\<not> k + 53 \<le> log2_floor q"
    using log2_floor_bounds(1) [OF assms(1)] power_int_increasing [of "k + 53" "log2_floor q" "2::rat"]
    by auto
  then have le: "ulp_exp q \<le> k" using assms(4) by (simp add: ulp_exp_def)
  have "q / 2 powi ulp_exp q = of_int n * 2 powi (k - ulp_exp q)"
    using assms(2) by (simp add: power_int_diff)
  also have "\<dots> = of_int (n * 2 ^ nat (k - ulp_exp q))"
    using le by (simp add: power_int_nonneg_int)
  finally have "rnd_pos q = of_int (n * 2 ^ nat (k - ulp_exp q)) * 2 powi ulp_exp q"
    by (simp only: rnd_pos_def round_half_even_int)
  also have "\<dots> = of_int n * (2 powi (k - ulp_exp q) * 2 powi ulp_exp q)"
    using le by (simp add: power_int_nonneg_int)
  also have "\<dots> = q"
    using assms(2) by (simp add: power_int_diff)
  finally show ?thesis .
qed

section \<open>Order of rounded values\<close>

lemma rnd_of_pos: "0 < q \<Longrightarrow> rnd q = (if 2 ^ 1024 \<le> rnd_pos q then Inf False else Fin (rnd_pos q))"
  by (simp add: rnd_def)

lemma rnd_0 [simp]: "rnd 0 = Fin 0"
  by (simp add: rnd_def)

lemma rnd_pos_dle_mono: "0 < p \<Longrightarrow> p \<le> q \<Longrightarrow> dle (rnd p) (rnd q)"
  using rnd_pos_mono [of p q] by (auto simp: rnd_of_pos)

lemma rnd_mono_nonneg: "0 \<le> p \<Longrightarrow> p \<le> q \<Longrightarrow> dle (rnd p) (rnd q)"
proof (cases "p = 0")
  case True
  assume "p \<le> q"
  then show ?thesis using True rnd_pos_nonneg [of q] by (cases "q = 0") (auto simp: rnd_of_pos)
next
  case False
  assume "0 \<le> p" "p \<le> q"
  then show ?thesis using False by (simp add: rnd_pos_dle_mono)
qed

lemma rnd_exact:
  assumes "0 < q" "q = of_int n * 2 powi k" "n < 2 ^ 53" "- 1074 \<le> k" "q < 2 ^ 1024"
  shows "rnd q = Fin q"
  using rnd_pos_exact [OF assms(1-4)] assms(1,5) by (simp add: rnd_of_pos)

lemma round_half_even_near:
  assumes "\<bar>x - of_int n\<bar> < 1 / 2"
  shows "round_half_even x = n"
proof -
  consider "\<lfloor>x\<rfloor> = n" | "\<lfloor>x\<rfloor> = n - 1" "1 / 2 < x - (of_int n - 1)" using assms by linarith
  then show ?thesis
  proof cases
    case 1
    then show ?thesis using assms by (auto simp: round_half_even_def Let_def)
  next
    case 2
    then have "1 / 2 < x - of_int \<lfloor>x\<rfloor>" by simp
    then show ?thesis using 2(1) by (simp add: round_half_even_def Let_def)
  qed
qed

text \<open>Rounding a concrete number: \<open>n\<close> is its significand to 53 bits, \<open>k\<close> the exponent of the last one.\<close>

lemma rnd_near:
  assumes "2 powi (k + 52) \<le> q" "q < 2 powi (k + 53)" "\<bar>q / 2 powi k - of_int n\<bar> < 1 / 2"
    and "- 1074 \<le> k" "of_int n * 2 powi k < (2 :: rat) ^ 1024"
  shows "rnd q = Fin (of_int n * 2 powi k)"
proof -
  have q: "0 < q" using assms(1) power_int_pos [of "k + 52"] by linarith
  have "\<not> k + 53 \<le> log2_floor q" "\<not> log2_floor q + 1 \<le> k + 52"
    using log2_floor_bounds [OF q] assms(1,2) power_int_increasing [of "k + 53" "log2_floor q" "2::rat"]
      power_int_increasing [of "log2_floor q + 1" "k + 52" "2::rat"]
    by auto
  then have u: "ulp_exp q = k" using assms(4) by (simp add: ulp_exp_def)
  then show ?thesis using q round_half_even_near [OF assms(3)] assms(5) by (simp add: rnd_of_pos rnd_pos_def)
qed

lemma rnd_int_exact: "0 < n \<Longrightarrow> n < 2 ^ 53 \<Longrightarrow> rnd (of_int n) = Fin (of_int n)"
proof (rule rnd_exact [where n = n and k = 0])
  assume "0 < n" "n < 2 ^ 53"
  then have "(of_int n :: rat) < of_int (2 ^ 53)" by (simp only: of_int_less_iff)
  also have "\<dots> < 2 ^ 1024" by simp
  finally show "(of_int n :: rat) < 2 ^ 1024" .
qed simp_all

lemma dle_refl: "x \<noteq> NaN \<Longrightarrow> dle x x"
  by (cases x) auto

lemma dle_trans: "dle x y \<Longrightarrow> dle y z \<Longrightarrow> dle x z"
  by (cases x; cases y; cases z) auto

lemma dlt_Fin [simp]: "dlt (Fin a) (Fin b) = (a < b)"
  by (auto simp: dlt_def)

lemma dlt_not_dle: "dlt x y \<Longrightarrow> \<not> dle y x"
  by (simp add: dlt_def)

lemma ddiv_Fin_mono_den:
  "0 < a \<Longrightarrow> 0 < p \<Longrightarrow> p \<le> q \<Longrightarrow> dle (ddiv (Fin a) (Fin q)) (ddiv (Fin a) (Fin p))"
  by (simp add: rnd_mono_nonneg frac_le)

lemma ddiv_Fin_mono_num:
  "0 \<le> a \<Longrightarrow> a \<le> b \<Longrightarrow> 0 < q \<Longrightarrow> dle (ddiv (Fin a) (Fin q)) (ddiv (Fin b) (Fin q))"
  by (simp add: rnd_mono_nonneg divide_right_mono)

lemma to_u64_mono:
  assumes "to_u64 x = Inr m" "to_u64 y = Inr n" "dle x y"
  shows "m \<le> n"
proof -
  obtain p q where xy: "x = Fin p" "y = Fin q" and b: "- 1 < p" "p < 2 ^ 64" "- 1 < q" "q < 2 ^ 64"
    and m: "m = of_nat (nat \<lfloor>p\<rfloor>)" and n: "n = of_nat (nat \<lfloor>q\<rfloor>)"
    using assms(1,2) by (cases x; cases y) (auto split: if_splits)
  have v: "unat (of_nat (nat \<lfloor>r\<rfloor>) :: u64) = nat \<lfloor>r\<rfloor>" if "r < 2 ^ 64" for r :: rat
  proof -
    have "\<lfloor>r\<rfloor> < 18446744073709551616" using that by (simp add: floor_less_iff)
    then have "nat \<lfloor>r\<rfloor> < 18446744073709551616" by linarith
    then show ?thesis by (simp add: unsigned_of_nat take_bit_nat_eq_self)
  qed
  have "p \<le> q" using assms(3) xy by simp
  then have "nat \<lfloor>p\<rfloor> \<le> nat \<lfloor>q\<rfloor>" by (intro nat_mono floor_mono)
  then show ?thesis
    using b by (simp add: word_le_nat_alt m n v)
qed

end
