(* ===== verification/Hex.thy ===== *)
theory Hex
  imports Prelude
begin

text \<open>
  The hex helpers of \<open>src/util/hex.hpp\<close>: \<open>to_hex\<close>, \<open>hex_val\<close>, \<open>from_hex\<close> and
  \<open>be32_from_hex\<close>. A pointer with a length is a byte list; the two exceptions of \<open>from_hex\<close>
  and the one of \<open>be32_from_hex\<close> are results. The lemmas show that decoding inverts encoding,
  that it accepts exactly the even-length strings of hex digits (of either case), and that a
  32-bit field is read big-endian.
\<close>

section \<open>Definitions\<close>

definition hex_digits :: string where
  "hex_digits = ''0123456789abcdef''"

primrec to_hex :: "bytes \<Rightarrow> string" where
  "to_hex [] = []"
| "to_hex (b # bs) =
     hex_digits ! unat (drop_bit 4 b) # hex_digits ! unat (b AND 0x0f) # to_hex bs"

definition hex_val :: "char \<Rightarrow> int" where
  "hex_val c =
     (if of_char (CHR ''0'') \<le> (of_char c :: int) \<and> of_char c \<le> (of_char (CHR ''9'') :: int)
        then of_char c - of_char (CHR ''0'')
      else if of_char (CHR ''a'') \<le> (of_char c :: int) \<and> of_char c \<le> (of_char (CHR ''f'') :: int)
        then of_char c - of_char (CHR ''a'') + 10
      else if of_char (CHR ''A'') \<le> (of_char c :: int) \<and> of_char c \<le> (of_char (CHR ''F'') :: int)
        then of_char c - of_char (CHR ''A'') + 10
      else - 1)"

text \<open>
  The loop of \<open>from_hex\<close> reads two characters per step. A last single character cannot occur
  after the length check; \<open>s[s.size()]\<close> would be the terminating zero, which is no digit.
\<close>

fun from_hex_loop :: "string \<Rightarrow> bytes res" where
  "from_hex_loop [] = Inr []"
| "from_hex_loop [c] = throw ''from_hex: bad digit''"
| "from_hex_loop (c # d # cs) =
     (let hi = hex_val c; lo = hex_val d in
      if hi < 0 \<or> lo < 0 then throw ''from_hex: bad digit''
      else bindR (from_hex_loop cs) (\<lambda>out. Inr (word_of_int (push_bit 4 hi OR lo) # out)))"

definition from_hex :: "string \<Rightarrow> bytes res" where
  "from_hex s =
     (if length s mod 2 \<noteq> 0 then throw ''from_hex: odd length'' else from_hex_loop s)"

definition be32_from_hex :: "string \<Rightarrow> u32 res" where
  "be32_from_hex s = bindR (from_hex s) (\<lambda>b.
     if length b \<noteq> 4 then throw ''be32_from_hex: need exactly 4 bytes''
     else Inr (push_bit 24 (ucast (b ! 0)) OR push_bit 16 (ucast (b ! 1))
            OR push_bit 8 (ucast (b ! 2)) OR ucast (b ! 3)))"

section \<open>Digits\<close>

definition is_hex_digit :: "char \<Rightarrow> bool" where
  "is_hex_digit c \<longleftrightarrow> c \<in> set ''0123456789abcdefABCDEF''"

definition lower_hex :: "char \<Rightarrow> char" where
  "lower_hex c = (if c \<in> set ''ABCDEF'' then char_of (of_char c + 32 :: nat) else c)"

lemma hex_val_nonneg_iff: "0 \<le> hex_val c \<longleftrightarrow> is_hex_digit c"
proof
  assume pos: "0 \<le> hex_val c"
  obtain n :: nat where c: "c = char_of n" and n: "n < 256"
    using char_of_char [of c] of_char_mod_256 [of c, where 'a = nat]
    by (metis mod_less_divisor zero_less_numeral)
  have "(of_char c :: nat) = n" using n by (simp add: c)
  then have i: "(of_char c :: int) = int n" by (metis of_nat_of_char)
  have "(48 \<le> n \<and> n \<le> 57) \<or> (97 \<le> n \<and> n \<le> 102) \<or> (65 \<le> n \<and> n \<le> 70)"
    using pos i by (simp add: hex_val_def split: if_splits)
  then have "n \<in> set [48..<58] \<or> n \<in> set [97..<103] \<or> n \<in> set [65..<71]"
    by (simp only: set_upt atLeastLessThan_iff) arith
  moreover have "list_all (\<lambda>n :: nat. is_hex_digit (char_of n)) ([48..<58] @ [97..<103] @ [65..<71])"
    by code_simp
  ultimately show "is_hex_digit c"
    unfolding c list_all_iff set_append by blast
next
  have "list_all (\<lambda>c. 0 \<le> hex_val c) ''0123456789abcdefABCDEF''"
    by (simp add: hex_val_def)
  then show "is_hex_digit c \<Longrightarrow> 0 \<le> hex_val c"
    unfolding list_all_iff is_hex_digit_def by blast
qed

lemma hex_val_bounds: "hex_val c < 16" "- 1 \<le> hex_val c"
  by (simp_all add: hex_val_def)

lemma hex_digit_of_val:
  "is_hex_digit c \<Longrightarrow> hex_digits ! nat (hex_val c) = lower_hex c"
proof -
  have "list_all (\<lambda>c. hex_digits ! nat (hex_val c) = lower_hex c) ''0123456789abcdefABCDEF''"
    by code_simp
  then show "is_hex_digit c \<Longrightarrow> ?thesis"
    unfolding list_all_iff is_hex_digit_def by blast
qed

lemma hex_val_hex_digits: "n < 16 \<Longrightarrow> hex_val (hex_digits ! n) = int n"
proof -
  have "map hex_val hex_digits = map int [0..<16]"
    by code_simp
  moreover have "length hex_digits = 16" by (simp add: hex_digits_def)
  ultimately show "n < 16 \<Longrightarrow> ?thesis"
    by (metis add_0 length_upt nth_map nth_upt diff_zero)
qed

lemma hex_digit_hex_digits: "n < 16 \<Longrightarrow> is_hex_digit (hex_digits ! n)"
  by (simp add: hex_val_nonneg_iff [symmetric] hex_val_hex_digits)

section \<open>Nibbles\<close>

lemma unat_high_nibble: "unat (drop_bit 4 (b :: u8)) = unat b div 16"
  by (simp only: unat_drop_bit_eq) (simp add: drop_bit_eq_div)

lemma unat_low_nibble: "unat ((b :: u8) AND 0x0f) = unat b mod 16"
proof -
  have "b AND 0x0f = take_bit 4 b" by (simp add: take_bit_eq_mask mask_eq_exp_minus_1)
  then show ?thesis by (simp only: unsigned_take_bit_eq) (simp add: take_bit_eq_mod)
qed

lemma high_nibble_lt [simp]: "unat (drop_bit 4 (b :: u8)) < 16"
  using unat_byte_lt [of b] unat_high_nibble [of b] by linarith

lemma low_nibble_lt [simp]: "unat ((b :: u8) AND 0x0f) < 16"
  using unat_low_nibble [of b] by linarith

lemma or_nibbles: "0 \<le> lo \<Longrightarrow> lo < 16 \<Longrightarrow> push_bit 4 hi OR lo = 16 * hi + (lo :: int)"
proof -
  assume "0 \<le> lo" "lo < 16"
  then have "lo = take_bit 4 lo" by (simp add: take_bit_int_eq_self)
  then have "push_bit 4 hi OR lo = push_bit 4 hi OR take_bit 4 lo" by simp
  also have "\<dots> = push_bit 4 hi + take_bit 4 lo"
    by (rule disjunctive_add [symmetric]) (auto simp: bit_simps)
  finally show ?thesis
    using \<open>lo = take_bit 4 lo\<close> by (simp add: push_bit_eq_mult)
qed

lemma byte_of_nibbles:
  "word_of_int (push_bit 4 (int (unat (drop_bit 4 b))) OR int (unat (b AND 0x0f))) = (b :: u8)"
proof -
  have lo: "int (unat (b AND 0x0f)) < 16" using low_nibble_lt [of b] by linarith
  have "push_bit 4 (int (unat (drop_bit 4 b))) OR int (unat (b AND 0x0f))
      = 16 * int (unat (drop_bit 4 b)) + int (unat (b AND 0x0f))"
    by (rule or_nibbles [OF _ lo]) (rule of_nat_0_le_iff)
  also have "\<dots> = int (16 * (unat b div 16) + unat b mod 16)"
    by (simp only: unat_high_nibble unat_low_nibble of_nat_add of_nat_mult of_nat_numeral)
  finally have "push_bit 4 (int (unat (drop_bit 4 b))) OR int (unat (b AND 0x0f)) = int (unat b)"
    by (simp only: mult_div_mod_eq)
  then show ?thesis by (simp only: of_int_of_nat_eq) simp
qed

lemma nibbles_of_byte:
  assumes "0 \<le> hi" "hi < 16" "0 \<le> lo" "lo < 16"
  shows "unat (drop_bit 4 (word_of_int (push_bit 4 hi OR lo) :: u8)) = nat hi"
    and "unat ((word_of_int (push_bit 4 hi OR lo) :: u8) AND 0x0f) = nat lo"
proof -
  have "uint (word_of_int (16 * hi + lo) :: u8) = 16 * hi + lo"
    using assms by (simp only: uint_word_of_int) simp
  then have v: "unat (word_of_int (push_bit 4 hi OR lo) :: u8) = nat (16 * hi + lo)"
    using assms(3,4) by (simp only: or_nibbles unat_eq_nat_uint)
  have n: "nat (16 * hi + lo) = 16 * nat hi + nat lo" "nat lo < 16"
    using assms by linarith+
  show "unat (drop_bit 4 (word_of_int (push_bit 4 hi OR lo) :: u8)) = nat hi"
    unfolding unat_high_nibble v n(1) using n(2) by simp
  show "unat ((word_of_int (push_bit 4 hi OR lo) :: u8) AND 0x0f) = nat lo"
    unfolding unat_low_nibble v n(1) using n(2) by simp
qed

section \<open>Encoding and decoding\<close>

lemma length_to_hex [simp]: "length (to_hex bs) = 2 * length bs"
  by (induction bs) auto

lemma to_hex_append: "to_hex (xs @ ys) = to_hex xs @ to_hex ys"
  by (induction xs) auto

lemma to_hex_digits: "c \<in> set (to_hex bs) \<Longrightarrow> is_hex_digit c"
  by (induction bs) (auto simp: hex_digit_hex_digits)

lemma from_hex_loop_to_hex: "from_hex_loop (to_hex bs) = Inr bs"
proof (induction bs)
  case (Cons b bs)
  then show ?case
    by (simp only: to_hex.simps from_hex_loop.simps hex_val_hex_digits high_nibble_lt
        low_nibble_lt Let_def byte_of_nibbles bindR_simps) simp
qed simp

lemma from_hex_to_hex [simp]: "from_hex (to_hex bs) = Inr bs"
  by (simp add: from_hex_def from_hex_loop_to_hex)

lemma from_hex_loop_ok:
  "even (length s) \<Longrightarrow> \<forall>c \<in> set s. is_hex_digit c \<Longrightarrow>
     \<exists>bs. from_hex_loop s = Inr bs \<and> to_hex bs = map lower_hex s"
proof (induction s rule: from_hex_loop.induct)
  case (3 c d cs)
  have pos: "0 \<le> hex_val c" "0 \<le> hex_val d"
    using "3.prems" by (simp_all add: hex_val_nonneg_iff)
  with "3.IH" [OF refl refl] "3.prems" obtain bs
    where bs: "from_hex_loop cs = Inr bs" "to_hex bs = map lower_hex cs" by auto
  have "to_hex (word_of_int (push_bit 4 (hex_val c) OR hex_val d) # bs)
      = map lower_hex (c # d # cs)"
    using "3.prems" bs(2)
    by (simp only: to_hex.simps nibbles_of_byte pos hex_val_bounds)
      (simp add: hex_digit_of_val)
  with bs(1) pos show ?case by (auto simp: Let_def)
qed auto

lemma from_hex_loop_bad:
  "from_hex_loop s = Inr bs \<Longrightarrow> even (length s) \<and> (\<forall>c \<in> set s. is_hex_digit c)"
proof (induction s arbitrary: bs rule: from_hex_loop.induct)
  case (3 c d cs)
  have pos: "\<not> (hex_val c < 0 \<or> hex_val d < 0)"
    using "3.prems" by (simp add: Let_def split: if_splits)
  with "3.prems" obtain bs' where bs': "from_hex_loop cs = Inr bs'"
    by (auto simp: Let_def res_simps)
  have "even (length cs) \<and> (\<forall>c \<in> set cs. is_hex_digit c)"
    using "3.IH" [OF refl refl pos bs'] .
  moreover have "is_hex_digit c" "is_hex_digit d"
    using pos by (simp_all add: not_less hex_val_nonneg_iff)
  ultimately show ?case by simp
qed auto

lemma from_hex_loop_error: "from_hex_loop s = Inl e \<Longrightarrow> e = Throw (Runtime_error ''from_hex: bad digit'')"
  by (induction s rule: from_hex_loop.induct) (auto simp: Let_def res_simps split: if_splits)

lemma from_hex_length: "from_hex s = Inr bs \<Longrightarrow> length s = 2 * length bs"
  using from_hex_loop_ok [of s] from_hex_loop_bad [of s bs] length_to_hex [of bs]
  by (auto simp: from_hex_def simp del: length_to_hex split: if_splits)

lemma from_hex_throws: "from_hex s = Inl f \<Longrightarrow> \<exists>msg. f = Throw (Runtime_error msg)"
  by (auto simp: from_hex_def dest: from_hex_loop_error split: if_splits)

lemma from_hex_not_Undefined [simp]: "from_hex s \<noteq> Inl Undefined"
  using from_hex_throws by blast

lemma be32_word:
  "push_bit 24 (ucast b0) OR push_bit 16 (ucast b1) OR push_bit 8 (ucast b2) OR ucast b3
     = (word_of_le [b3, b2, b1, b0] :: u32)"
  by (simp add: numeral_2_eq_2 numeral_3_eq_3 ac_simps)

lemma be32_from_hex_4:
  assumes "from_hex s = Inr b" "length b = 4"
  shows "be32_from_hex s = Inr (word_of_le (rev b))"
proof -
  obtain b0 b1 b2 b3 where "b = [b0, b1, b2, b3]"
    using assms(2) by (auto simp: numeral_eq_Suc length_Suc_conv)
  then show ?thesis
    using assms(1) be32_word [of b0 b1 b2 b3] by (simp add: be32_from_hex_def)
qed

lemma be32_value: "length b = 4 \<Longrightarrow> unat (word_of_le (rev b) :: u32) = be_value b"
  unfolding be_value_def by (rule unat_word_of_le) simp

lemma le32_be32: "length b = 4 \<Longrightarrow> le32 (word_of_le (rev b)) = rev b"
  by (rule le_value_inj) (simp_all add: byte_simps be32_value be_value_def)

text \<open>
  C22: Decoding inverts encoding, and accepts exactly what can be decoded: a string of even
  length of hex digits gives the bytes whose encoding is that string in lower case, a string of
  odd length and a string with another character throw the two errors of the code.
\<close>

theorem from_hex_spec:
  "from_hex (to_hex bytes) = Inr bytes \<and>
   (if odd (length s) then from_hex s = throw ''from_hex: odd length''
    else if list_all is_hex_digit s
      then \<exists>bs. from_hex s = Inr bs \<and> to_hex bs = map lower_hex s
    else from_hex s = throw ''from_hex: bad digit'')"
proof -
  have bad: "from_hex_loop s = throw ''from_hex: bad digit''" if "\<not> list_all is_hex_digit s"
    using that from_hex_loop_bad [of s] from_hex_loop_error [of s]
    by (cases "from_hex_loop s") (auto simp: list_all_iff)
  have ok: "\<exists>bs. from_hex_loop s = Inr bs \<and> to_hex bs = map lower_hex s"
    if "even (length s)" "list_all is_hex_digit s"
    using that by (intro from_hex_loop_ok) (auto simp: list_all_iff)
  show ?thesis
  proof (cases "even (length s)")
    case True
    then have "from_hex s = from_hex_loop s" by (simp add: from_hex_def)
    with True bad ok show ?thesis by auto
  next
    case False
    then show ?thesis
      by (simp add: from_hex_def from_hex_loop_to_hex odd_iff_mod_2_eq_one)
  qed
qed

text \<open>
  A 32-bit field is read big-endian from exactly four hex bytes: the word has the value of
  the digits, any other number of bytes throws, and writing the word back least significant
  byte first, as the header and the nonce are laid out, reverses the bytes.
\<close>

theorem be32_from_hex_spec:
  "(case from_hex s of
      Inl e \<Rightarrow> be32_from_hex s = Inl e
    | Inr b \<Rightarrow>
        if length b = 4
        then \<exists>w. be32_from_hex s = Inr w \<and> unat w = be_value b \<and> le32 w = rev b
        else be32_from_hex s = throw ''be32_from_hex: need exactly 4 bytes'')"
proof (cases "from_hex s")
  case (Inl e)
  then show ?thesis by (simp add: be32_from_hex_def)
next
  case (Inr b)
  then show ?thesis
    using be32_from_hex_4 [OF Inr] be32_value [of b] le32_be32 [of b]
    by (cases "length b = 4") (auto simp: be32_from_hex_def)
qed

end
