(* ===== verification/Target.thy ===== *)
theory Target
  imports Double Hex
begin

text \<open>
  Targets and difficulties: \<open>src/pow/target.cpp\<close> and \<open>target.hpp\<close>. A \<open>Hash256\<close> is its 32
  bytes, least significant first; \<open>le_value\<close> is the 256-bit number. The definitions keep the
  loops, the array writes and the double arithmetic of the source; the lemmas give the number
  each of them computes, that comparison is the comparison of those numbers, and that a higher
  difficulty never gives an easier target.
\<close>

section \<open>Definitions\<close>

type_synonym Hash256 = bytes

abbreviation zero256 :: Hash256 where "zero256 \<equiv> replicate 32 0"
abbreviation ones256 :: Hash256 where "ones256 \<equiv> replicate 32 0xff"

text \<open>\<open>for (; k > 0 && d > 1.0; --k) d /= 4294967296.0;\<close>\<close>

fun diff_loop :: "nat \<Rightarrow> double \<Rightarrow> nat \<times> double" where
  "diff_loop 0 d = (0, d)"
| "diff_loop (Suc k) d =
     (if dlt (Fin 1) d then diff_loop k (ddiv d (Fin 4294967296)) else (Suc k, d))"

definition put_word :: "Hash256 \<Rightarrow> nat \<Rightarrow> u32 \<Rightarrow> Hash256" where
  "put_word t w v =
     t[w * 4 + 0 := byte_at v 0, w * 4 + 1 := byte_at v 1,
       w * 4 + 2 := byte_at v 2, w * 4 + 3 := byte_at v 3]"

definition target_from_difficulty :: "double \<Rightarrow> Hash256 res" where
  "target_from_difficulty diff =
     (if dle diff (Fin 0) then Inr ones256
      else
        let (k, d) = diff_loop 6 diff in
        bindR (to_u64 (ddiv (Fin 4294901760) d)) (\<lambda>m.
          if m = 0 \<and> k = 6 then Inr ones256
          else
            let t = put_word zero256 k (ucast m) in
            Inr (if k + 1 < 8 then put_word t (k + 1) (ucast (drop_bit 32 m)) else t)))"

definition target_from_compact :: "u32 \<Rightarrow> Hash256" where
  "target_from_compact bits =
     (let ex = unat (drop_bit 24 bits);
          mant = bits AND 0x007fffff;
          be0 = zero256;
          be = (if ex \<le> 3 then
                  let mant' = drop_bit (8 * (3 - ex)) mant in
                  be0[31 := byte_at mant' 0, 30 := byte_at mant' 1, 29 := byte_at mant' 2]
                else
                  let shift = int ex - 3 in
                  foldl (\<lambda>be i.
                    let pos = 32 - shift - 3 + int i in
                    if 0 \<le> pos \<and> pos < 32
                    then be[nat pos := ucast (drop_bit (16 - 8 * i) mant)] else be) be0 [0..<3])
      in map (\<lambda>i. be ! (31 - i)) [0..<32])"

text \<open>\<open>for (int i = 0; i < 8; ++i) t[24 + i] = static_cast<uint8_t>(hi >> (8 * i));\<close>\<close>

definition put_high64 :: "Hash256 \<Rightarrow> u64 \<Rightarrow> Hash256" where
  "put_high64 t hi = foldl (\<lambda>t i. t[24 + i := byte_at hi i]) t [0..<8]"

definition monero_target_from_hex :: "string \<Rightarrow> Hash256 res" where
  "monero_target_from_hex hex = bindR (from_hex hex) (\<lambda>b.
     if length b = 32 then Inr (map (\<lambda>i. b ! i) [0..<32])
     else if length b = 4 then
       (let compact = word_of_le (map ((!) b) [0..<4]) :: u32 in
        if compact = 0 then Inr ones256
        else Inr (put_high64 zero256 (0xFFFFFFFFFFFFFFFF div (0xFFFFFFFF div ucast compact))))
     else if length b = 8 then Inr (put_high64 zero256 (word_of_le (map ((!) b) [0..<8])))
     else throw ''monero_target_from_hex: unexpected length'')"

definition high64 :: "Hash256 \<Rightarrow> u64" where
  "high64 target = word_of_le (map (\<lambda>i. target ! (24 + i)) [0..<8])"

definition target_to_difficulty :: "Hash256 \<Rightarrow> double" where
  "target_to_difficulty target =
     (let hi = high64 target in
      if hi = 0 then Fin 0 else ddiv (rnd 18446744073709551615) (d_of_u64 hi))"

definition target_from_difficulty64 :: "double \<Rightarrow> Hash256 res" where
  "target_from_difficulty64 diff =
     bindR (if dle diff (Fin 1) then Inr 0xFFFFFFFFFFFFFFFF
            else to_u64 (ddiv (rnd 18446744073709551615) diff))
       (\<lambda>hi. Inr (put_high64 zero256 hi))"

fun meets_loop :: "Hash256 \<Rightarrow> Hash256 \<Rightarrow> nat \<Rightarrow> bool" where
  "meets_loop h t 0 = True"
| "meets_loop h t (Suc i) =
     (if h ! i < t ! i then True else if t ! i < h ! i then False else meets_loop h t i)"

definition meets_target :: "Hash256 \<Rightarrow> Hash256 \<Rightarrow> bool" where
  "meets_target h t = meets_loop h t 32"

section \<open>Comparison\<close>

lemma take_Suc_le_value:
  "i < length xs \<Longrightarrow> le_value (take (Suc i) xs) = le_value (take i xs) + 256 ^ i * unat (xs ! i)"
  by (simp add: take_Suc_conv_app_nth le_value_append)

lemma le_value_take_bound: "i \<le> length xs \<Longrightarrow> le_value (take i xs) < 256 ^ i"
  using le_value_bound [of "take i xs"] by (simp add: min.absorb2)

lemma digits_less:
  assumes "(a::nat) < B" "x < y"
  shows "a + B * x < b + B * y"
proof -
  have "a + B * x < B + B * x" using assms by simp
  also have "\<dots> = B * Suc x" by simp
  also have "\<dots> \<le> B * y" using assms by (intro mult_le_mono2) simp
  finally show ?thesis by simp
qed

lemma meets_loop_value:
  "n \<le> length h \<Longrightarrow> n \<le> length t \<Longrightarrow>
     meets_loop h t n \<longleftrightarrow> le_value (take n h) \<le> le_value (take n t)"
proof (induction n)
  case 0
  then show ?case by simp
next
  case (Suc n)
  have v: "le_value (take (Suc n) h) = le_value (take n h) + 256 ^ n * unat (h ! n)"
    "le_value (take (Suc n) t) = le_value (take n t) + 256 ^ n * unat (t ! n)"
    using Suc.prems by (simp_all add: take_Suc_le_value)
  have b: "le_value (take n h) < 256 ^ n" "le_value (take n t) < 256 ^ n"
    using Suc.prems by (simp_all add: le_value_take_bound)
  consider "h ! n < t ! n" | "t ! n < h ! n" | "h ! n = t ! n" by (metis linorder_cases)
  then show ?case
  proof cases
    case 1
    with digits_less [OF b(1)] v show ?thesis by (simp add: word_less_nat_alt less_imp_le)
  next
    case 2
    with digits_less [OF b(2)] v show ?thesis by (simp add: word_less_nat_alt not_le)
  next
    case 3
    with Suc v show ?thesis by simp
  qed
qed

lemma meets_target_value:
  "length h = 32 \<Longrightarrow> length t = 32 \<Longrightarrow> meets_target h t \<longleftrightarrow> le_value h \<le> le_value t"
  using meets_loop_value [of 32 h t] by (simp add: meets_target_def)

section \<open>The numbers targets denote\<close>

lemma length_put_word [simp]: "length (put_word t w v) = length t"
  by (simp add: put_word_def)

lemma put_word_at: "put_word (xs @ [a, b, c, d] @ ys) w v = xs @ le32 v @ ys"
  if "length xs = 4 * w"
  using that by (simp add: put_word_def le32_def list_update_append mult.commute)

lemma zero256_split:
  assumes "k \<le> 6"
  shows "zero256 = replicate (4 * k) 0 @ [0, 0, 0, 0] @ [0, 0, 0, 0] @ replicate (24 - 4 * k) (0 :: u8)"
proof -
  have "[0, 0, 0, 0 :: u8] = replicate 4 0" by (simp add: numeral_eq_Suc)
  then show ?thesis using assms by (simp add: replicate_add [symmetric])
qed

lemma put_words_value:
  assumes "k \<le> 6"
  shows "le_value (put_word (put_word zero256 k (ucast m)) (k + 1) (ucast (drop_bit 32 (m :: u64))))
     = unat m * 2 ^ (32 * k)"
proof -
  let ?z = "replicate (4 * k) 0 :: bytes" and ?r = "replicate (24 - 4 * k) 0 :: bytes"
  have "put_word zero256 k (ucast m) = (?z @ le32 (ucast m)) @ [0, 0, 0, 0] @ ?r"
    unfolding zero256_split [OF assms]
    using put_word_at [of ?z k 0 0 0 0 "[0, 0, 0, 0] @ ?r"] by simp
  then have "put_word (put_word zero256 k (ucast m)) (k + 1) (ucast (drop_bit 32 m))
      = ?z @ le32 (ucast m) @ le32 (ucast (drop_bit 32 m)) @ ?r"
    using put_word_at [of "?z @ le32 (ucast m)" "k + 1" 0 0 0 0 ?r] by simp
  then have "le_value (put_word (put_word zero256 k (ucast m)) (k + 1) (ucast (drop_bit 32 m)))
      = 256 ^ (4 * k) * (unat (ucast m :: u32) + 256 ^ 4 * unat (ucast (drop_bit 32 m) :: u32))"
    by (simp add: le_value_append byte_simps)
  also have "unat (ucast m :: u32) + 256 ^ 4 * unat (ucast (drop_bit 32 m) :: u32) = unat m"
  proof -
    have "unat m < 18446744073709551616"
      by (rule order_less_le_trans [OF unsigned_less]) simp
    then have "unat (drop_bit 32 m) < 2 ^ 32"
      by (simp only: unat_drop_bit_eq) (simp add: drop_bit_eq_div)
    then show ?thesis
      by (simp only: unsigned_ucast_eq unat_drop_bit_eq) (simp add: drop_bit_eq_div take_bit_eq_mod)
  qed
  also have "(256 :: nat) ^ (4 * k) = 2 ^ (32 * k)"
    by (simp add: power_mult)
  finally show ?thesis by (simp add: mult.commute)
qed

lemma upt_8: "[0..<8] = [0, 1, 2, 3, 4, 5, 6, 7]"
  by (simp add: upt_rec)

lemma put_high64_zero: "put_high64 zero256 hi = replicate 24 0 @ map (byte_at hi) [0..<8]"
  by (simp add: put_high64_def upt_8 numeral_eq_Suc)

lemma put_high64_value: "le_value (put_high64 zero256 hi) = unat hi * 2 ^ 192"
proof -
  have "le_value (map (byte_at hi) [0..<8]) = unat hi"
    by (rule le_value_bytes_full) simp
  then show ?thesis by (simp only: put_high64_zero le_value_append) simp
qed

lemma length_put_high64 [simp]: "length (put_high64 zero256 hi) = 32"
  by (simp add: put_high64_zero)

lemma high64_put_high64: "high64 (put_high64 zero256 hi) = hi"
proof -
  have "map (\<lambda>i. put_high64 zero256 hi ! (24 + i)) [0..<8] = map (byte_at hi) [0..<8]"
    by (simp add: put_high64_zero nth_append)
  moreover have "word_of_le (map (byte_at hi) [0..<8]) = hi"
    by (rule word_of_le_bytes) simp
  ultimately show ?thesis by (simp only: high64_def)
qed

section \<open>Difficulty to target\<close>

lemma dle_0_rnd: "0 \<le> q \<Longrightarrow> dle (Fin 0) (rnd q)"
  using rnd_mono_nonneg [of 0 q] by simp

lemma rnd_dle_Inf [simp]: "dle (rnd q) (Inf False)"
  by (simp add: rnd_def Let_def)

lemma ddiv_mono_num:
  "dlt (Fin 0) x \<Longrightarrow> dle x y \<Longrightarrow> 0 < q \<Longrightarrow> dle (ddiv x (Fin q)) (ddiv y (Fin q))"
  by (cases x; cases y) (auto simp: dlt_def rnd_mono_nonneg divide_right_mono)

lemma ddiv_mono_den:
  "0 < a \<Longrightarrow> dlt (Fin 0) x \<Longrightarrow> dle x y \<Longrightarrow> dle (ddiv (Fin a) y) (ddiv (Fin a) x)"
  by (cases x; cases y) (auto simp: dlt_def rnd_mono_nonneg frac_le dle_0_rnd)

lemma rnd_min_step: "rnd (1 / 4294967296) = Fin (1 / 4294967296)"
  by (rule rnd_exact [where n = 1 and k = "- 32"]) (simp_all add: power_int_minus)

lemma step_lower: "dlt (Fin 1) y \<Longrightarrow> dle (Fin (1 / 4294967296)) (ddiv y (Fin 4294967296))"
  using ddiv_mono_num [of "Fin 1" y 4294967296] rnd_min_step by (simp add: dlt_def)

lemma diff_loop_le: "diff_loop n y = (k, d) \<Longrightarrow> k \<le> n"
  by (induction n arbitrary: y) (fastforce split: if_splits)+

lemma diff_loop_stop: "diff_loop n y = (n, d) \<Longrightarrow> d = y"
  using diff_loop_le by (cases n) (fastforce split: if_splits)+

lemma diff_loop_lower:
  "diff_loop n y = (k, d) \<Longrightarrow> k < n \<Longrightarrow> dle (Fin (1 / 4294967296)) d"
proof (induction n arbitrary: y)
  case (Suc n)
  then have y: "dlt (Fin 1) y" and r: "diff_loop n (ddiv y (Fin 4294967296)) = (k, d)"
    by (auto split: if_splits)
  show ?case
  proof (cases "k < n")
    case True
    with Suc.IH r show ?thesis by blast
  next
    case False
    with diff_loop_le [OF r] have "k = n" by simp
    with r have "d = ddiv y (Fin 4294967296)" by (simp add: diff_loop_stop)
    then show ?thesis using step_lower [OF y] by simp
  qed
qed simp

lemma diff_loop_upper:
  "diff_loop n y = (k, d) \<Longrightarrow> 0 < k \<Longrightarrow> dle (Fin 0) y \<Longrightarrow> dle d (Fin 1)"
proof (induction n arbitrary: y)
  case (Suc n)
  show ?case
  proof (cases "dlt (Fin 1) y")
    case True
    have "dle (Fin 0) (ddiv y (Fin 4294967296))"
      using step_lower [OF True] by (rule dle_trans [rotated]) simp
    with True Suc show ?thesis by simp
  next
    case False
    with Suc.prems show ?thesis by (cases y) (auto simp: dlt_def)
  qed
qed simp

lemma diff_loop_mono:
  "dlt (Fin 0) x \<Longrightarrow> dle x y \<Longrightarrow> diff_loop n x = (k, d) \<Longrightarrow> diff_loop n y = (k', d') \<Longrightarrow>
     k' < k \<or> k' = k \<and> dle d d'"
proof (induction n arbitrary: x y)
  case 0
  then show ?case by simp
next
  case (Suc n)
  show ?case
  proof (cases "dlt (Fin 1) x")
    case True
    then have y: "dlt (Fin 1) y" using Suc.prems(2) dle_trans unfolding dlt_def by blast
    have "dlt (Fin 0) (ddiv x (Fin 4294967296))"
      using step_lower [OF True] by (cases "ddiv x (Fin 4294967296)") (auto simp: dlt_def)
    moreover have "dle (ddiv x (Fin 4294967296)) (ddiv y (Fin 4294967296))"
      using ddiv_mono_num [OF Suc.prems(1,2)] by simp
    ultimately show ?thesis
      using Suc.IH Suc.prems(3,4) True y by simp
  next
    case False
    then have k: "k = Suc n" "d = x" using Suc.prems(3) by auto
    show ?thesis
      using k Suc.prems(2,4) diff_loop_le [of n "ddiv y (Fin 4294967296)" k' d']
      by (cases "dlt (Fin 1) y") auto
  qed
qed

lemma diff_loop_ge_min:
  assumes "dle (Fin (1 / 4294967296)) y" "diff_loop n y = (k, d)"
  shows "dle (Fin (1 / 4294967296)) d"
proof (cases "k < n")
  case True
  with assms(2) show ?thesis by (rule diff_loop_lower)
next
  case False
  with diff_loop_le [OF assms(2)] have "k = n" by simp
  with assms show ?thesis by (metis diff_loop_stop)
qed

lemma diff_loop_pos:
  assumes "dlt (Fin 0) y" "diff_loop n y = (k, d)"
  shows "dlt (Fin 0) d"
proof (cases "k < n")
  case True
  with assms(2) have "dle (Fin (1 / 4294967296)) d" by (rule diff_loop_lower)
  then show ?thesis by (cases d) (auto simp: dlt_def)
next
  case False
  with diff_loop_le [OF assms(2)] have "k = n" by simp
  with assms show ?thesis by (metis diff_loop_stop)
qed

lemma to_u64_C: "to_u64 (Fin 4294901760) = Inr 4294901760"
  by simp

lemma ddiv_C_1: "ddiv (Fin 4294901760) (Fin 1) = Fin 4294901760"
  using rnd_int_exact [of 4294901760] by simp

lemma ddiv_C_min: "ddiv (Fin 4294901760) (Fin (1 / 4294967296)) = Fin (4294901760 * 4294967296)"
proof -
  have "rnd (4294901760 * 4294967296) = Fin (4294901760 * 4294967296)"
    by (rule rnd_exact [where n = 4294901760 and k = 32]) (simp_all add: power_int_def)
  then show ?thesis by simp
qed

text \<open>The quotient is at least \<open>0xffff0000\<close> while \<open>d \<le> 1\<close>, and below 2 to the 64 from 2 to the -32 on.\<close>

lemma quotient_lower:
  assumes "dlt (Fin 0) d" "dle d (Fin 1)" "to_u64 (ddiv (Fin 4294901760) d) = Inr m"
  shows "4294901760 \<le> unat m"
proof -
  have "dle (Fin 4294901760) (ddiv (Fin 4294901760) d)"
    using ddiv_mono_den [OF _ assms(1,2), of 4294901760] ddiv_C_1 by simp
  then have "4294901760 \<le> m" using to_u64_mono [OF to_u64_C assms(3)] by simp
  then show ?thesis by (simp add: word_le_nat_alt)
qed

lemma quotient_upper:
  assumes "dle (Fin (1 / 4294967296)) d"
  shows "\<exists>m. to_u64 (ddiv (Fin 4294901760) d) = Inr m \<and> unat m \<le> 4294901760 * 4294967296"
proof -
  have le: "dle (ddiv (Fin 4294901760) d) (Fin (4294901760 * 4294967296))"
    using ddiv_mono_den [of 4294901760 "Fin (1 / 4294967296)" d] assms
    unfolding ddiv_C_min by simp
  have ge: "dle (Fin 0) (ddiv (Fin 4294901760) d)"
    using assms by (cases d) (auto simp: dle_0_rnd)
  obtain q where q: "ddiv (Fin 4294901760) d = Fin q" "0 \<le> q" "q \<le> 4294901760 * 4294967296"
    using le ge by (cases "ddiv (Fin 4294901760) d") auto
  have u: "to_u64 (Fin (4294901760 * 4294967296)) = Inr (4294901760 * 4294967296)" by simp
  have m: "to_u64 (ddiv (Fin 4294901760) d) = Inr (of_nat (nat \<lfloor>q\<rfloor>))" using q by simp
  have "(of_nat (nat \<lfloor>q\<rfloor>) :: u64) \<le> 4294901760 * 4294967296"
    using to_u64_mono [OF m u le] .
  then show ?thesis using m by (simp add: word_le_nat_alt)
qed

lemma target_from_difficulty_pos:
  assumes "dlt (Fin 0) diff" "diff_loop 6 diff = (k, d)"
    and "to_u64 (ddiv (Fin 4294901760) d) = Inr m"
  shows "\<exists>t. target_from_difficulty diff = Inr t \<and> length t = 32 \<and> le_value t = unat m * 2 ^ (32 * k)"
proof -
  have k: "k \<le> 6" using diff_loop_le assms(2) by simp
  have "\<not> (m = 0 \<and> k = 6)"
  proof
    assume "m = 0 \<and> k = 6"
    moreover from this have "dle d (Fin 1)"
      using diff_loop_upper [OF assms(2)] assms(1) by (simp add: dlt_def)
    ultimately show False
      using quotient_lower [OF diff_loop_pos [OF assms(1,2)] _ assms(3)] by simp
  qed
  then have "target_from_difficulty diff
      = Inr (put_word (put_word zero256 k (ucast m)) (k + 1) (ucast (drop_bit 32 m)))"
    using assms k by (auto simp: target_from_difficulty_def dlt_def Let_def)
  then show ?thesis using put_words_value [OF k] by simp
qed

lemma target_from_difficulty_cases:
  assumes "target_from_difficulty diff = Inr t"
  obtains "dle diff (Fin 0)" "t = ones256"
  | k d m where "dlt (Fin 0) diff" "diff_loop 6 diff = (k, d)"
      "to_u64 (ddiv (Fin 4294901760) d) = Inr m" "length t = 32"
      "le_value t = unat m * 2 ^ (32 * k)"
proof (cases "dle diff (Fin 0)")
  case True
  with assms that(1) show ?thesis by (simp add: target_from_difficulty_def)
next
  case False
  obtain k d where kd: "diff_loop 6 diff = (k, d)" by (metis surj_pair)
  with assms False obtain m where m: "to_u64 (ddiv (Fin 4294901760) d) = Inr m"
    by (auto simp: target_from_difficulty_def Let_def res_simps)
  have "diff \<noteq> NaN"
  proof
    assume "diff = NaN"
    then have "d = NaN" using kd diff_loop.simps(2) [of 5 NaN] by (simp add: dlt_def)
    with m show False by simp
  qed
  with False have pos: "dlt (Fin 0) diff" by (cases diff) (auto simp: dlt_def)
  show ?thesis
    using target_from_difficulty_pos [OF pos kd m] assms that(2) [OF pos kd m] by auto
qed

lemma le_value_replicate_ff: "le_value (replicate n 0xff) = 256 ^ n - 1"
proof (induction n)
  case (Suc n)
  have "255 + 256 * (256 ^ n - 1) = 256 * 256 ^ n - (1 :: nat)"
    by (simp add: diff_mult_distrib2)
  with Suc show ?case by simp
qed simp

lemma ones256_max: "length t = 32 \<Longrightarrow> le_value t \<le> le_value ones256"
  using le_value_bound [of t] by (simp only: le_value_replicate_ff)

lemma target_from_difficulty_defined:
  assumes "dle (Fin (1 / 4294967296)) diff"
  shows "\<exists>t. target_from_difficulty diff = Inr t \<and> length t = 32"
proof -
  obtain k d where kd: "diff_loop 6 diff = (k, d)" by (metis surj_pair)
  obtain m where m: "to_u64 (ddiv (Fin 4294901760) d) = Inr m"
    using quotient_upper diff_loop_ge_min [OF assms kd] by blast
  have "dlt (Fin 0) diff" using assms by (cases diff) (auto simp: dlt_def)
  then show ?thesis using target_from_difficulty_pos [OF _ kd m] by blast
qed

lemma target_from_difficulty_length: "target_from_difficulty diff = Inr t \<Longrightarrow> length t = 32"
  by (erule target_from_difficulty_cases) simp_all

text \<open>
  C18: A share target is the comparison of 256-bit little-endian numbers: the byte loop of
  \<open>meets_target\<close>, which starts at the most significant byte, answers whether the digest's number
  is at most the target's, equality included.
\<close>

theorem meets_target_iff:
  assumes "length hash = 32" and "length target = 32"
  shows "meets_target hash target \<longleftrightarrow> le_value hash \<le> le_value target"
  using assms by (rule meets_target_value)

theorem meets_target_iff_witness:
  "meets_target (replicate 31 0xff @ [0x00]) (replicate 31 0x00 @ [0x01])
     \<longleftrightarrow> le_value (replicate 31 0xff @ [0x00]) \<le> le_value (replicate 31 0x00 @ [0x01])"
  by (rule meets_target_iff) simp_all

text \<open>
  C19: A higher share difficulty never gives an easier target: for any two difficulties in order
  (in the double arithmetic of the code, with all its roundings) the target of the higher one
  is at most that of the lower one, also across the change of target word.
\<close>

theorem target_from_difficulty_antitone:
  assumes "dle diff diff'" and "target_from_difficulty diff = Inr t"
    and "target_from_difficulty diff' = Inr t'"
  shows "le_value t' \<le> le_value t"
  using assms(2)
proof (cases rule: target_from_difficulty_cases)
  case 1
  then show ?thesis
    using ones256_max target_from_difficulty_length [OF assms(3)] by simp
next
  case (2 k d m)
  note x = 2
  from assms(3) show ?thesis
  proof (cases rule: target_from_difficulty_cases)
    case 1
    with x(1) assms(1) show ?thesis by (metis dle_trans dlt_not_dle)
  next
    case (2 k' d' m')
    have k: "k \<le> 6" using x(2) by (rule diff_loop_le)
    from diff_loop_mono [OF x(1) assms(1) x(2) 2(2)]
    consider "k' = k" "dle d d'" | "k' < k" by blast
    then show ?thesis
    proof cases
      case 1
      have "m' \<le> m"
        using ddiv_mono_den [OF _ diff_loop_pos [OF x(1,2)] 1(2), of 4294901760]
          to_u64_mono [OF 2(3) x(3)] by simp
      with 1(1) show ?thesis by (simp add: x(5) 2(5) word_le_nat_alt)
    next
      case 3: 2
      have "dle d (Fin 1)"
        using diff_loop_upper [OF x(2)] 3 x(1) by (simp add: dlt_def)
      then have lo: "4294901760 \<le> unat m"
        using quotient_lower [OF diff_loop_pos [OF x(1,2)] _ x(3)] by simp
      have "dle (Fin (1 / 4294967296)) d'"
        using diff_loop_lower [OF 2(2)] 3 k by simp
      then have hi: "unat m' \<le> 4294901760 * 4294967296"
        using quotient_upper [of d'] 2(3) by auto
      have "le_value t' \<le> (4294901760 * 2 ^ 32) * 2 ^ (32 * k')"
        using hi by (simp add: 2(5))
      also have "\<dots> = 4294901760 * 2 ^ (32 * Suc k')"
        by (simp add: power_add)
      also have "\<dots> \<le> unat m * 2 ^ (32 * k)"
        using lo 3 by (intro mult_le_mono power_increasing) simp_all
      finally show ?thesis by (simp add: x(5))
    qed
  qed
qed

theorem target_from_difficulty_antitone_witness:
  "\<exists>t t'. target_from_difficulty (Fin 1) = Inr t \<and> target_from_difficulty (Fin 1024) = Inr t'
     \<and> le_value t' \<le> le_value t"
proof -
  obtain t t' where t: "target_from_difficulty (Fin 1) = Inr t"
      "target_from_difficulty (Fin 1024) = Inr t'"
    using target_from_difficulty_defined [of "Fin 1"] target_from_difficulty_defined [of "Fin 1024"]
    by auto
  then show ?thesis using target_from_difficulty_antitone [OF _ t] by auto
qed

text \<open>
  C20: Every difficulty of at least 2 to the -32 has a 32-byte target, so the conversion of the
  quotient to \<open>uint64_t\<close> is in range; every positive difficulty below 2 to the -33 makes it
  undefined behaviour, although the header promises a target for every \<open>diff\<close>.
\<close>

theorem target_from_difficulty_domain:
  "(dle (Fin (1 / 2 ^ 32)) diff \<longrightarrow> (\<exists>t. target_from_difficulty diff = Inr t \<and> length t = 32))
   \<and> (dlt (Fin 0) diff \<and> dle diff (Fin (1 / 2 ^ 33)) \<longrightarrow> target_from_difficulty diff = Inl Undefined)"
proof (intro conjI impI)
  assume "dle (Fin (1 / 2 ^ 32)) diff"
  then show "\<exists>t. target_from_difficulty diff = Inr t \<and> length t = 32"
    by (intro target_from_difficulty_defined) simp
next
  assume d: "dlt (Fin 0) diff \<and> dle diff (Fin (1 / 2 ^ 33))"
  have "\<not> dlt (Fin 1) diff" using d by (cases diff) (auto simp: dlt_def)
  then have l: "diff_loop 6 diff = (6, diff)" by (simp add: numeral_eq_Suc)
  have "rnd (4294901760 * 8589934592) = Fin (4294901760 * 8589934592)"
    by (rule rnd_exact [where n = 4294901760 and k = 33]) (simp_all add: power_int_def)
  then have "dle (Fin (4294901760 * 8589934592)) (ddiv (Fin 4294901760) diff)"
    using ddiv_mono_den [of 4294901760 diff "Fin (1 / 2 ^ 33)"] d by simp
  then have "to_u64 (ddiv (Fin 4294901760) diff) = Inl Undefined"
    by (cases "ddiv (Fin 4294901760) diff") auto
  then show "target_from_difficulty diff = Inl Undefined"
    using d by (simp add: target_from_difficulty_def l dlt_def)
qed

theorem target_from_difficulty_domain_witness:
  "dle (Fin (1 / 2 ^ 32)) (Fin 1) \<and> (\<exists>t. target_from_difficulty (Fin 1) = Inr t \<and> length t = 32)
   \<and> dlt (Fin 0) (Fin (1 / 10 ^ 12)) \<and> dle (Fin (1 / 10 ^ 12)) (Fin (1 / 2 ^ 33))
   \<and> target_from_difficulty (Fin (1 / 10 ^ 12)) = Inl Undefined"
  using target_from_difficulty_domain [of "Fin 1"]
    target_from_difficulty_domain [of "Fin (1 / 10 ^ 12)"] by simp

section \<open>Compact targets\<close>

lemma le_value_nat_bytes: "le_value (map (\<lambda>j. of_nat (v div 256 ^ j)) [0..<n]) = v mod 256 ^ n"
proof (induction n)
  case 0
  then show ?case by simp
next
  case (Suc n)
  have "unat (of_nat (v div 256 ^ n) :: u8) = v div 256 ^ n mod 256"
    by (simp add: unsigned_of_nat take_bit_eq_mod)
  with Suc have "le_value (map (\<lambda>j. of_nat (v div 256 ^ j)) [0..<Suc n])
      = v mod 256 ^ n + 256 ^ n * (v div 256 ^ n mod 256)"
    by (simp add: le_value_append)
  also have "\<dots> = v mod (256 ^ n * 256)"
    by (simp only: mod_mult2_eq)
  finally show ?case by (simp add: mult.commute)
qed

lemma shifted_byte:
  fixes mant :: u32
  assumes "unat mant < 256 ^ 3"
  shows "(of_nat (unat mant * 256 ^ s div 256 ^ j) :: u8) =
           (if s \<le> j \<and> j < s + 3 then byte_at mant (j - s) else 0)"
proof (cases "s \<le> j")
  case True
  then obtain r where j: "j = s + r" by (auto simp: le_iff_add)
  have v: "unat mant * 256 ^ s div 256 ^ j = unat mant div 256 ^ r"
    by (simp add: j power_add)
  show ?thesis
  proof (cases "r < 3")
    case True
    then have "byte_at mant r = of_nat (unat mant div 256 ^ r)"
      by (intro byte_at_unat) simp
    with True show ?thesis unfolding v by (simp add: j)
  next
    case False
    then have "(256::nat) ^ 3 \<le> 256 ^ r" by (intro power_increasing) auto
    with assms have "unat mant < 256 ^ r" by simp
    with False show ?thesis unfolding v by (simp add: j)
  qed
next
  case False
  then obtain r where s: "s = j + Suc r" by (auto simp: not_le less_iff_Suc_add)
  have "unat mant * 256 ^ s div 256 ^ j = 256 * (unat mant * 256 ^ r)"
    by (simp add: s power_add)
  moreover have "(of_nat (256 * n) :: u8) = 0" for n
    by (simp only: word_unat_eq_iff unsigned_of_nat) (simp add: take_bit_eq_mod)
  ultimately show ?thesis using False by (simp only: simp_thms if_False)
qed

lemma compact_mant:
  fixes bits :: u32
  shows "unat (bits AND 0x007fffff) = unat bits mod 2 ^ 23"
proof -
  have "bits AND 0x007fffff = take_bit 23 bits" by (simp add: take_bit_eq_mask mask_eq_exp_minus_1)
  then show ?thesis by (simp only: unsigned_take_bit_eq) (simp add: take_bit_eq_mod)
qed

lemma compact_large:
  fixes mant :: u32
  assumes "3 < ex"
  defines "be \<equiv> foldl (\<lambda>be i. let pos = 32 - (int ex - 3) - 3 + int i in
             if 0 \<le> pos \<and> pos < 32 then be[nat pos := ucast (drop_bit (16 - 8 * i) mant)] else be)
             zero256 [0..<3]"
  assumes "j < 32"
  shows "be ! (31 - j) = (if ex - 3 \<le> j \<and> j < ex - 3 + 3 then byte_at mant (j - (ex - 3)) else 0)"
proof -
  have u: "[0..<3] = [0, 1, Suc (Suc 0)]" by (simp add: upt_rec numeral_eq_Suc)
  have b: "ucast (drop_bit 16 mant) = byte_at mant 2" "ucast (drop_bit 8 mant) = byte_at mant 1"
    "ucast mant = byte_at mant 0" by (simp_all add: byte_at_def)
  consider "ex = j + 3" "j - (ex - 3) = 0" | "ex = j + 2" "j - (ex - 3) = 1"
    | "ex = j + 1" "j - (ex - 3) = 2" | "ex < j + 1 \<or> j + 3 < ex"
    using assms(1) by linarith
  then show ?thesis
    by cases (use assms(1,3) in \<open>auto simp: be_def u b Let_def nth_list_update nat_eq_iff numeral_2_eq_2\<close>)
qed

lemma upt_32_rev: "j < 32 \<Longrightarrow> map (\<lambda>i. be ! (31 - i)) [0..<32] ! j = be ! (31 - j)"
  by simp

lemma compact_bytes:
  fixes bits :: u32
  defines "ex \<equiv> unat bits div 2 ^ 24" and "mant \<equiv> unat bits mod 2 ^ 23"
  assumes "j < 32"
  shows "target_from_compact bits ! j =
    of_nat ((if ex \<le> 3 then mant div 256 ^ (3 - ex) else mant * 256 ^ (ex - 3)) div 256 ^ j)"
proof -
  let ?m = "bits AND 0x007fffff"
  have ex: "unat (drop_bit 24 bits) = ex"
    unfolding ex_def by (simp only: unat_drop_bit_eq) (simp add: drop_bit_eq_div)
  have m: "unat ?m = mant" "mant < 256 ^ 3"
    unfolding mant_def by (simp add: compact_mant) (rule less_trans [OF mod_less_divisor], simp_all)
  show ?thesis
  proof (cases "ex \<le> 3")
    case False
    then have "target_from_compact bits ! j =
        (if ex - 3 \<le> j \<and> j < ex - 3 + 3 then byte_at ?m (j - (ex - 3)) else 0)"
      using compact_large [of ex j ?m] assms(3) by (simp add: target_from_compact_def ex)
    also have "\<dots> = of_nat (mant * 256 ^ (ex - 3) div 256 ^ j)"
      using shifted_byte [of ?m "ex - 3" j] m by simp
    finally show ?thesis using False by simp
  next
    case True
    define sh where "sh = drop_bit (8 * (3 - ex)) ?m"
    have s: "unat sh = mant div 256 ^ (3 - ex)"
      unfolding sh_def by (simp only: unat_drop_bit_eq m) (simp only: div_256_power)
    have "unat sh < 256 ^ 3"
      unfolding s using m(2) by (meson div_le_dividend le_less_trans)
    then have "of_nat (mant div 256 ^ (3 - ex) div 256 ^ j) = (if j < 3 then byte_at sh j else 0)"
      using shifted_byte [of sh 0 j] by (simp add: s)
    moreover have "target_from_compact bits = map (\<lambda>i. (zero256[31 := byte_at sh 0,
        30 := byte_at sh 1, 29 := byte_at sh 2]) ! (31 - i)) [0..<32]"
      by (simp only: target_from_compact_def Let_def ex True if_True sh_def)
    then have "target_from_compact bits ! j = (if j < 3 then byte_at sh j else 0)"
      using assms(3) by (auto simp: nth_list_update less_Suc_eq numeral_3_eq_3 numeral_2_eq_2)
    ultimately show ?thesis using True by simp
  qed
qed

text \<open>
  The compact \<open>nBits\<close> form denotes mantissa (23 bits, the sign bit ignored) times 256 to the
  exponent minus 3, bytes shifted out at the bottom for exponents below 3 and at the top of the
  256 bits for large ones.
\<close>

theorem target_from_compact_value:
  "le_value (target_from_compact bits) =
     (let ex = unat bits div 2 ^ 24; mant = unat bits mod 2 ^ 23 in
      if ex \<le> 3 then mant div 256 ^ (3 - ex) else mant * 256 ^ (ex - 3) mod 2 ^ 256)"
proof -
  let ?ex = "unat bits div 2 ^ 24" and ?mant = "unat bits mod 2 ^ 23"
  let ?v = "if ?ex \<le> 3 then ?mant div 256 ^ (3 - ?ex) else ?mant * 256 ^ (?ex - 3)"
  have "target_from_compact bits = map (\<lambda>j. of_nat (?v div 256 ^ j)) [0..<32]"
  proof (rule nth_equalityI)
    show "length (target_from_compact bits) = length (map (\<lambda>j. of_nat (?v div 256 ^ j) :: u8) [0..<32])"
      by (simp add: target_from_compact_def Let_def)
    fix j assume "j < length (target_from_compact bits)"
    then have "j < 32" by (simp add: target_from_compact_def Let_def)
    then show "target_from_compact bits ! j = map (\<lambda>j. of_nat (?v div 256 ^ j)) [0..<32] ! j"
      using compact_bytes [of j bits] by simp
  qed
  then have v: "le_value (target_from_compact bits) = ?v mod 256 ^ 32"
    by (simp only: le_value_nat_bytes)
  have p: "(256 :: nat) ^ 32 = 2 ^ 256" by simp
  have "?mant div 256 ^ (3 - ?ex) < 256 ^ 32"
    by (rule le_less_trans [OF div_le_dividend], rule less_trans [OF mod_less_divisor]) simp_all
  then show ?thesis
    unfolding v p Let_def by (cases "?ex \<le> 3") (simp_all only: mod_less if_True if_False)
qed

section \<open>Monero targets and 64-bit difficulties\<close>

lemma map_nth_length: "length b = n \<Longrightarrow> map ((!) b) [0..<n] = b"
  by (metis map_nth)

lemma monero_target_32:
  "from_hex hex = Inr b \<Longrightarrow> length b = 32 \<Longrightarrow> monero_target_from_hex hex = Inr b"
  by (simp add: monero_target_from_hex_def map_nth_length)

lemma monero_target_8:
  assumes "from_hex hex = Inr b" "length b = 8"
  shows "\<exists>t. monero_target_from_hex hex = Inr t \<and> length t = 32 \<and> le_value t = le_value b * 2 ^ 192"
proof -
  have "unat (word_of_le b :: u64) = le_value b"
    by (rule unat_word_of_le) (simp add: assms)
  then show ?thesis
    using assms by (simp add: monero_target_from_hex_def map_nth_length put_high64_value)
qed

lemma monero_target_4:
  assumes "from_hex hex = Inr b" "length b = 4"
  shows "\<exists>t. monero_target_from_hex hex = Inr t \<and> length t = 32 \<and>
     le_value t = (if le_value b = 0 then 2 ^ 256 - 1
                   else (2 ^ 64 - 1) div ((2 ^ 32 - 1) div le_value b) * 2 ^ 192)"
proof -
  define c where "c = (word_of_le b :: u32)"
  have c: "unat c = le_value b"
    unfolding c_def by (rule unat_word_of_le) (simp add: assms)
  have m: "monero_target_from_hex hex = Inr (if c = 0 then ones256
      else put_high64 zero256 (0xFFFFFFFFFFFFFFFF div (0xFFFFFFFF div ucast c)))"
    using assms by (simp add: monero_target_from_hex_def map_nth_length c_def Let_def)
  have "unat c < 2 ^ 64" by (rule order_less_le_trans [OF unsigned_less]) simp
  then have u: "unat (ucast c :: u64) = unat c"
    by (simp only: unsigned_ucast_eq) (simp add: take_bit_nat_eq_self)
  have "unat (0xFFFFFFFFFFFFFFFF div (0xFFFFFFFF div ucast c :: u64))
      = (2 ^ 64 - 1) div ((2 ^ 32 - 1) div le_value b)"
    by (simp only: unat_div_distrib u c) simp
  moreover have "(c = 0) = (le_value b = 0)"
    using c by (simp add: unat_eq_0 [symmetric])
  moreover have "le_value ones256 = 2 ^ 256 - 1"
    by (simp only: le_value_replicate_ff) simp
  ultimately show ?thesis
    using m by (auto simp: put_high64_value)
qed

lemma monero_target_length: "monero_target_from_hex hex = Inr t \<Longrightarrow> length t = 32"
proof -
  assume t: "monero_target_from_hex hex = Inr t"
  then obtain b where b: "from_hex hex = Inr b" "length b = 32 \<or> length b = 4 \<or> length b = 8"
    by (auto simp: monero_target_from_hex_def bindR_eq_Inr split: if_splits)
  then show "length t = 32"
    using t monero_target_32 [of hex b] monero_target_4 [of hex b] monero_target_8 [of hex b] by auto
qed

lemma monero_target_defined: "monero_target_from_hex hex \<noteq> Inl Undefined"
  by (auto simp: monero_target_from_hex_def bindR_eq_Inl Let_def)

text \<open>
  C21: A pool's target string of 4 bytes expands to the 256-bit target whose top 64 bits are the
  64-bit reciprocal of the 32-bit one (all ones for zero), of 8 bytes to the target with those
  top 64 bits, of 32 bytes to itself; any other length, and any string that is not hex, throws.
\<close>

theorem monero_target_from_hex_spec:
  "(case from_hex hex of
      Inl e \<Rightarrow> monero_target_from_hex hex = Inl e
    | Inr b \<Rightarrow>
        if length b = 32 then monero_target_from_hex hex = Inr b
        else if length b = 4 then
          \<exists>t. monero_target_from_hex hex = Inr t \<and> length t = 32 \<and>
            le_value t = (if le_value b = 0 then 2 ^ 256 - 1
                          else (2 ^ 64 - 1) div ((2 ^ 32 - 1) div le_value b) * 2 ^ 192)
        else if length b = 8 then
          \<exists>t. monero_target_from_hex hex = Inr t \<and> length t = 32 \<and> le_value t = le_value b * 2 ^ 192
        else monero_target_from_hex hex = throw ''monero_target_from_hex: unexpected length'')"
proof (cases "from_hex hex")
  case (Inl e)
  then show ?thesis by (simp add: monero_target_from_hex_def)
next
  case (Inr b)
  consider "length b = 32" | "length b = 4" | "length b = 8"
    | "length b \<noteq> 32" "length b \<noteq> 4" "length b \<noteq> 8" by blast
  then show ?thesis
  proof cases
    case 1
    with Inr monero_target_32 show ?thesis by simp
  next
    case 2
    with Inr monero_target_4 [OF Inr] show ?thesis by simp
  next
    case 3
    with Inr monero_target_8 [OF Inr] show ?thesis by simp
  next
    case 4
    with Inr show ?thesis by (simp add: monero_target_from_hex_def)
  qed
qed

text \<open>
  For 4-byte targets a larger nonzero pool value is never harder: the reciprocal expansion
  is monotone.
\<close>

theorem monero_compact_monotone:
  assumes "from_hex s = Inr b" "length b = 4" "from_hex s' = Inr b'" "length b' = 4"
    and "0 < le_value b" "le_value b \<le> le_value b'"
    and "monero_target_from_hex s = Inr t" "monero_target_from_hex s' = Inr t'"
  shows "le_value t \<le> le_value t'"
proof -
  have b': "le_value b' \<le> 2 ^ 32 - 1"
    using le_value_bound [of b'] assms(4) by simp
  have "(2 ^ 32 - 1) div le_value b' \<le> (2 ^ 32 - 1) div le_value b"
    using assms(5,6) by (intro div_le_mono2) simp_all
  moreover have "0 < (2 ^ 32 - 1) div le_value b'"
    using assms(5,6) b' by (simp only: div_greater_zero_iff) auto
  ultimately have "(2 ^ 64 - 1) div ((2 ^ 32 - 1) div le_value b)
      \<le> (2 ^ 64 - 1) div ((2 ^ 32 - 1) div le_value b' :: nat)"
    by (rule div_le_mono2 [rotated])
  then have "(2 ^ 64 - 1) div ((2 ^ 32 - 1) div le_value b) * 2 ^ 192
      \<le> (2 ^ 64 - 1) div ((2 ^ 32 - 1) div le_value b' :: nat) * 2 ^ 192"
    by (rule mult_le_mono1)
  moreover have "le_value t = (2 ^ 64 - 1) div ((2 ^ 32 - 1) div le_value b) * 2 ^ 192"
    using monero_target_4 [OF assms(1,2)] assms(5,7) by auto
  moreover have "le_value t' = (2 ^ 64 - 1) div ((2 ^ 32 - 1) div le_value b') * 2 ^ 192"
    using monero_target_4 [OF assms(3,4)] assms(5,6,8) by auto
  ultimately show ?thesis by simp
qed

theorem monero_compact_monotone_witness:
  "\<exists>t t'. monero_target_from_hex (to_hex [0, 1, 0, 0]) = Inr t
     \<and> monero_target_from_hex (to_hex [0xff, 0xff, 0, 0]) = Inr t' \<and> le_value t \<le> le_value t'"
proof -
  obtain t t' where t: "monero_target_from_hex (to_hex [0, 1, 0, 0]) = Inr t"
    "monero_target_from_hex (to_hex [0xff, 0xff, 0, 0]) = Inr t'"
    using monero_target_4 [OF from_hex_to_hex, of "[0, 1, 0, 0]"]
      monero_target_4 [OF from_hex_to_hex, of "[0xff, 0xff, 0, 0]"] by auto
  show ?thesis
    using t monero_compact_monotone [OF from_hex_to_hex _ from_hex_to_hex _ _ _ t] by simp
qed

text \<open>The literal \<open>18446744073709551615.0\<close> is 2 to the 64: it has no nearer double.\<close>

lemma literal_2_64: "rnd 18446744073709551615 = Fin (2 ^ 64)"
proof -
  have "nbits 18446744073709551615 = 64" by (simp add: nbits.simps)
  then have u: "ulp_exp 18446744073709551615 = 11" by (simp add: ulp_exp_def log2_floor_def)
  have "\<lfloor>18446744073709551615 / 2048 :: rat\<rfloor> = 9007199254740991"
    by (simp add: floor_eq_iff)
  then have "round_half_even (18446744073709551615 / 2048) = 9007199254740992"
    by (simp add: round_half_even_def)
  then have "rnd_pos 18446744073709551615 = 2 ^ 64"
    by (simp add: rnd_pos_def u power_int_def)
  then show ?thesis by (simp add: rnd_of_pos)
qed

lemma rnd_below_2_64: "rnd (2 ^ 64 - 2048) = Fin (2 ^ 64 - 2048)"
  by (rule rnd_exact [where n = 9007199254740991 and k = 11]) (simp_all add: power_int_def)

text \<open>The least double above 1 is 1 plus 2 to the -52.\<close>

lemma is_double_above_1:
  assumes "is_double (Fin q)" "1 < q"
  shows "1 + 1 / 2 ^ 52 \<le> q"
proof (cases "2 \<le> q")
  case True
  then show ?thesis by simp
next
  case False
  have "\<lfloor>q\<rfloor> = 1" using assms(2) False by linarith
  then have "log2_floor q = 0" using assms(2) by (simp add: log2_floor_def nbits.simps)
  then have u: "ulp_exp q = - 52" by (simp add: ulp_exp_def)
  have "rnd_pos q = q" using assms by (auto simp: rnd_of_pos split: if_splits)
  then have n: "q * 2 ^ 52 = of_int (round_half_even (q / 2 powi (- 52)))"
    unfolding rnd_pos_def u by (simp add: power_int_minus field_simps)
  then have "of_int (2 ^ 52) < (of_int (round_half_even (q / 2 powi (- 52))) :: rat)"
    using assms(2) by simp
  then have "2 ^ 52 + 1 \<le> round_half_even (q / 2 powi (- 52))"
    by (simp only: of_int_less_iff)
  then have "of_int (2 ^ 52 + 1) \<le> (of_int (round_half_even (q / 2 powi (- 52))) :: rat)"
    by (simp only: of_int_le_iff)
  then show ?thesis using n by (simp add: field_simps)
qed

lemma difficulty64_quotient:
  assumes "is_double diff" "dlt (Fin 1) diff"
  shows "\<exists>hi. to_u64 (ddiv (Fin (2 ^ 64)) diff) = Inr hi"
proof (cases diff)
  case (Fin q)
  with assms have q: "1 + 1 / 2 ^ 52 \<le> q" by (intro is_double_above_1) simp_all
  then have "2 ^ 64 / q \<le> 2 ^ 64 / (1 + 1 / 2 ^ 52)" by (intro divide_left_mono) simp_all
  also have "\<dots> \<le> 2 ^ 64 - (2048 :: rat)" by simp
  finally have "dle (rnd (2 ^ 64 / q)) (Fin (2 ^ 64 - 2048))"
    using rnd_mono_nonneg [of "2 ^ 64 / q" "2 ^ 64 - 2048"] q rnd_below_2_64 by simp
  moreover have "dle (Fin 0) (rnd (2 ^ 64 / q))" using q by (intro dle_0_rnd) simp
  moreover have "q \<noteq> 0" using q by auto
  ultimately show ?thesis
    using Fin by (cases "rnd (2 ^ 64 / q)") auto
next
  case (Inf s)
  then show ?thesis by simp
next
  case NaN
  with assms show ?thesis by (simp add: dlt_def)
qed

lemma target_from_difficulty64_hi:
  assumes "target_from_difficulty64 diff = Inr t"
  shows "\<exists>hi. t = put_high64 zero256 hi \<and> (dle diff (Fin 1) \<and> hi = 0xFFFFFFFFFFFFFFFF \<or>
     \<not> dle diff (Fin 1) \<and> to_u64 (ddiv (Fin (2 ^ 64)) diff) = Inr hi)"
  using assms by (auto simp: target_from_difficulty64_def literal_2_64 res_simps split: if_splits)

text \<open>
  The test override \<open>--share-diff\<close> is safe and monotone: every double but NaN has a 32-byte
  target (the quotient always fits \<open>uint64_t\<close>, because the least double above 1 already brings
  it below 2 to the 64), and a higher difficulty never gives an easier target.
\<close>

theorem target_from_difficulty64_spec:
  assumes "is_double diff" "is_double diff'" "dle diff diff'"
  shows "\<exists>t t'. target_from_difficulty64 diff = Inr t \<and> target_from_difficulty64 diff' = Inr t'
     \<and> length t = 32 \<and> length t' = 32 \<and> le_value t' \<le> le_value t"
proof -
  have def: "\<exists>t. target_from_difficulty64 d = Inr t" if "is_double d" "d \<noteq> NaN" for d
  proof (cases "dle d (Fin 1)")
    case False
    with that(2) have "dlt (Fin 1) d" by (cases d) (auto simp: dlt_def)
    with that(1) False show ?thesis
      using difficulty64_quotient by (fastforce simp: target_from_difficulty64_def literal_2_64)
  qed (simp add: target_from_difficulty64_def)
  have nn: "diff \<noteq> NaN" "diff' \<noteq> NaN" using assms(3) by (auto elim: dle.elims)
  obtain t t' where t: "target_from_difficulty64 diff = Inr t" "target_from_difficulty64 diff' = Inr t'"
    using def assms(1,2) nn by blast
  obtain hi hi' where hi: "t = put_high64 zero256 hi" "t' = put_high64 zero256 hi'" and
    c: "dle diff (Fin 1) \<and> hi = 0xFFFFFFFFFFFFFFFF \<or>
        \<not> dle diff (Fin 1) \<and> to_u64 (ddiv (Fin (2 ^ 64)) diff) = Inr hi"
    and c': "dle diff' (Fin 1) \<and> hi' = 0xFFFFFFFFFFFFFFFF \<or>
        \<not> dle diff' (Fin 1) \<and> to_u64 (ddiv (Fin (2 ^ 64)) diff') = Inr hi'"
    using target_from_difficulty64_hi [OF t(1)] target_from_difficulty64_hi [OF t(2)] by blast
  have "hi' \<le> hi"
  proof (cases "dle diff (Fin 1)")
    case True
    then have "hi = - 1" using c by simp
    then show ?thesis by simp
  next
    case False
    then have "\<not> dle diff' (Fin 1)" using assms(3) dle_trans by blast
    moreover have "dlt (Fin 0) diff" using False nn by (cases diff) (auto simp: dlt_def)
    ultimately show ?thesis
      using c c' False assms(3) ddiv_mono_den [of "2 ^ 64" diff diff'] to_u64_mono by fastforce
  qed
  then show ?thesis using t hi by (simp add: put_high64_value word_le_nat_alt)
qed

theorem target_from_difficulty64_spec_witness:
  "\<exists>t t'. target_from_difficulty64 (Fin 1000) = Inr t \<and> target_from_difficulty64 (Fin 2500) = Inr t'
     \<and> length t = 32 \<and> length t' = 32 \<and> le_value t' \<le> le_value t"
  using target_from_difficulty64_spec [of "Fin 1000" "Fin 2500"]
    rnd_int_exact [of 1000] rnd_int_exact [of 2500] by simp

end
