(* ===== verification/Sha256.thy ===== *)
theory Sha256
  imports Prelude
begin

text \<open>
  The streaming SHA-256 of \<open>src/pow/sha256.cpp\<close> and \<open>sha256.hpp\<close>: the class \<open>Sha256\<close> as a
  record, its members \<open>reset\<close>, \<open>transform\<close>, \<open>update\<close>, \<open>finish\<close>, and the free functions
  \<open>sha256\<close> and \<open>sha256d\<close>; also \<open>Sha256dHasher::hash\<close>.

  A write of \<open>update\<close> past the 64-byte buffer would be undefined behaviour and is a result of
  the model; the class invariant \<open>sha_inv\<close> rules it out. \<open>fips_sha256\<close> is the hash as FIPS 180-4
  states it (pad the message, cut it into blocks, fold the compression function over them),
  with the message schedule as a recursion on the index and the library's rotation. The
  theorems show that the streaming code computes it, whatever the chunks the message comes
  in, that the padding loop ends, and that no buffer access is out of range.
\<close>

section \<open>Definitions\<close>

record Sha256 =
  sha_state :: "u32 list"
  sha_bitlen :: u64
  sha_buf :: bytes
  sha_buflen :: nat

definition K :: "u32 list" where
  "K = [0x428A2F98, 0x71374491, 0xB5C0FBCF, 0xE9B5DBA5, 0x3956C25B, 0x59F111F1,
      0x923F82A4, 0xAB1C5ED5, 0xD807AA98, 0x12835B01, 0x243185BE, 0x550C7DC3,
      0x72BE5D74, 0x80DEB1FE, 0x9BDC06A7, 0xC19BF174, 0xE49B69C1, 0xEFBE4786,
      0x0FC19DC6, 0x240CA1CC, 0x2DE92C6F, 0x4A7484AA, 0x5CB0A9DC, 0x76F988DA,
      0x983E5152, 0xA831C66D, 0xB00327C8, 0xBF597FC7, 0xC6E00BF3, 0xD5A79147,
      0x06CA6351, 0x14292967, 0x27B70A85, 0x2E1B2138, 0x4D2C6DFC, 0x53380D13,
      0x650A7354, 0x766A0ABB, 0x81C2C92E, 0x92722C85, 0xA2BFE8A1, 0xA81A664B,
      0xC24B8B70, 0xC76C51A3, 0xD192E819, 0xD6990624, 0xF40E3585, 0x106AA070,
      0x19A4C116, 0x1E376C08, 0x2748774C, 0x34B0BCB5, 0x391C0CB3, 0x4ED8AA4A,
      0x5B9CCA4F, 0x682E6FF3, 0x748F82EE, 0x78A5636F, 0x84C87814, 0x8CC70208,
      0x90BEFFFA, 0xA4506CEB, 0xBEF9A3F7, 0xC67178F2]"

definition rotr :: "u32 \<Rightarrow> nat \<Rightarrow> u32" where
  "rotr x n = drop_bit n x OR push_bit (32 - n) x"

definition reset :: "Sha256 \<Rightarrow> Sha256" where
  "reset h = h\<lparr>
     sha_state := [0x6A09E667, 0xBB67AE85, 0x3C6EF372, 0xA54FF53A,
                   0x510E527F, 0x9B05688C, 0x1F83D9AB, 0x5BE0CD19],
     sha_bitlen := 0,
     sha_buflen := 0\<rparr>"

text \<open>\<open>m[0..15]\<close> are the big-endian words of the block; the second loop appends \<open>m[16..63]\<close>.\<close>

definition block_word :: "bytes \<Rightarrow> nat \<Rightarrow> u32" where
  "block_word block i =
     push_bit 24 (ucast (block ! (i * 4))) OR
     push_bit 16 (ucast (block ! (i * 4 + 1))) OR
     push_bit 8 (ucast (block ! (i * 4 + 2))) OR
     ucast (block ! (i * 4 + 3))"

definition schedule_step :: "u32 list \<Rightarrow> nat \<Rightarrow> u32 list" where
  "schedule_step m i =
     (let s0 = rotr (m ! (i - 15)) 7 XOR rotr (m ! (i - 15)) 18 XOR drop_bit 3 (m ! (i - 15));
          s1 = rotr (m ! (i - 2)) 17 XOR rotr (m ! (i - 2)) 19 XOR drop_bit 10 (m ! (i - 2))
      in m @ [m ! (i - 16) + s0 + m ! (i - 7) + s1])"

definition schedule :: "bytes \<Rightarrow> u32 list" where
  "schedule block = foldl schedule_step (map (block_word block) [0..<16]) [16..<64]"

type_synonym regs = "u32 \<times> u32 \<times> u32 \<times> u32 \<times> u32 \<times> u32 \<times> u32 \<times> u32"

fun round_step :: "u32 list \<Rightarrow> regs \<Rightarrow> nat \<Rightarrow> regs" where
  "round_step m (a, b, c, d, e, f, g, h) i =
     (let S1 = rotr e 6 XOR rotr e 11 XOR rotr e 25;
          ch = (e AND f) XOR (NOT e AND g);
          t1 = h + S1 + ch + K ! i + m ! i;
          S0 = rotr a 2 XOR rotr a 13 XOR rotr a 22;
          maj = (a AND b) XOR (a AND c) XOR (b AND c);
          t2 = S0 + maj
      in (t1 + t2, a, b, c, d + t1, e, f, g))"

definition load_regs :: "u32 list \<Rightarrow> regs" where
  "load_regs s = (s ! 0, s ! 1, s ! 2, s ! 3, s ! 4, s ! 5, s ! 6, s ! 7)"

fun add_regs :: "u32 list \<Rightarrow> regs \<Rightarrow> u32 list" where
  "add_regs s (a, b, c, d, e, f, g, h) =
     [s ! 0 + a, s ! 1 + b, s ! 2 + c, s ! 3 + d, s ! 4 + e, s ! 5 + f, s ! 6 + g, s ! 7 + h]"

definition transform :: "bytes \<Rightarrow> Sha256 \<Rightarrow> Sha256" where
  "transform block h =
     (let m = schedule block;
          r = foldl (round_step m) (load_regs (sha_state h)) [0..<64]
      in h\<lparr>sha_state := add_regs (sha_state h) r\<rparr>)"

definition update_byte :: "Sha256 \<Rightarrow> u8 \<Rightarrow> Sha256 res" where
  "update_byte h x =
     (if 64 \<le> sha_buflen h then Inl Undefined
      else
        let h1 = h\<lparr>sha_buf := (sha_buf h)[sha_buflen h := x], sha_buflen := sha_buflen h + 1\<rparr>
        in if sha_buflen h1 = 64 then
             Inr ((transform (sha_buf h1) h1)\<lparr>
                    sha_bitlen := sha_bitlen h1 + 512, sha_buflen := 0\<rparr>)
           else Inr h1)"

fun update :: "Sha256 \<Rightarrow> bytes \<Rightarrow> Sha256 res" where
  "update h [] = Inr h"
| "update h (x # xs) = bindR (update_byte h x) (\<lambda>h'. update h' xs)"

text \<open>
  \<open>while (buflen_ != 56) update(&zero, 1)\<close>. The loop ends: every step moves \<open>buflen_\<close> towards
  56, through 64 (that is, 0) when it starts beyond, or leaves the buffer and is undefined.
\<close>

lemma update_byte_buflen:
  "update_byte h x = Inr h' \<Longrightarrow>
     sha_buflen h < 64 \<and> sha_buflen h' = (if sha_buflen h = 63 then 0 else sha_buflen h + 1)"
  by (auto simp: update_byte_def Let_def split: if_splits)

function pad_zeros :: "Sha256 \<Rightarrow> Sha256 res" where
  "pad_zeros h =
     (if sha_buflen h = 56 then Inr h else bindR (update h [0]) (\<lambda>h'. pad_zeros h'))"
  by pat_completeness auto
termination
proof (relation "measure (\<lambda>h. if sha_buflen h \<le> 56 then 56 - sha_buflen h else 120 - sha_buflen h)")
  fix h h'
  assume "sha_buflen h \<noteq> 56" and "update h [0] = Inr h'"
  moreover from this have "update_byte h 0 = Inr h'" by (auto simp: res_simps)
  ultimately show "(h', h) \<in> measure (\<lambda>h. if sha_buflen h \<le> 56 then 56 - sha_buflen h
                                     else 120 - sha_buflen h)"
    using update_byte_buflen [of h 0 h'] by auto
qed simp

definition length_bytes :: "u64 \<Rightarrow> bytes" where
  "length_bytes bits = map (\<lambda>i. ucast (drop_bit (56 - i * 8) bits)) [0..<8]"

definition state_bytes :: "u32 list \<Rightarrow> bytes" where
  "state_bytes s =
     concat (map (\<lambda>i. [ucast (drop_bit 24 (s ! i)), ucast (drop_bit 16 (s ! i)),
                       ucast (drop_bit 8 (s ! i)), ucast (s ! i)]) [0..<8])"

definition finish :: "Sha256 \<Rightarrow> (bytes \<times> Sha256) res" where
  "finish h =
     (let bits = sha_bitlen h + of_nat (sha_buflen h) * 8 in
      bindR (update h [0x80]) (\<lambda>h1.
      bindR (pad_zeros h1) (\<lambda>h2.
      bindR (update h2 (length_bytes bits)) (\<lambda>h3.
      Inr (state_bytes (sha_state h3), h3)))))"

text \<open>
  \<open>Sha256 h;\<close> leaves \<open>buf_\<close> uninitialised before the constructor calls \<open>reset\<close>; the model takes
  any memory of that size as \<open>mem\<close>.
\<close>

definition sha256_mem :: "Sha256 \<Rightarrow> bytes \<Rightarrow> bytes res" where
  "sha256_mem mem data =
     bindR (update (reset mem) data) (\<lambda>h. bindR (finish h) (\<lambda>(out, _). Inr out))"

definition zero_mem :: Sha256 where
  "zero_mem = \<lparr>sha_state = replicate 8 0, sha_bitlen = 0, sha_buf = replicate 64 0, sha_buflen = 0\<rparr>"

definition sha256 :: "bytes \<Rightarrow> bytes res" where
  "sha256 data = sha256_mem zero_mem data"

definition sha256d :: "bytes \<Rightarrow> bytes res" where
  "sha256d data = bindR (sha256 data) (\<lambda>tmp. sha256 tmp)"

section \<open>SHA-256 as FIPS 180-4 states it\<close>

definition sigma0 :: "u32 \<Rightarrow> u32" where
  "sigma0 x = word_rotr 7 x XOR word_rotr 18 x XOR drop_bit 3 x"

definition sigma1 :: "u32 \<Rightarrow> u32" where
  "sigma1 x = word_rotr 17 x XOR word_rotr 19 x XOR drop_bit 10 x"

fun fips_W :: "bytes \<Rightarrow> nat \<Rightarrow> u32" where
  "fips_W block t =
     (if t < 16 then of_nat (be_value (take 4 (drop (4 * t) block)))
      else sigma1 (fips_W block (t - 2)) + fips_W block (t - 7)
         + sigma0 (fips_W block (t - 15)) + fips_W block (t - 16))"

declare fips_W.simps [simp del]

fun fips_round :: "bytes \<Rightarrow> regs \<Rightarrow> nat \<Rightarrow> regs" where
  "fips_round block (a, b, c, d, e, f, g, h) t =
     (let T1 = h + (word_rotr 6 e XOR word_rotr 11 e XOR word_rotr 25 e)
                 + ((e AND f) XOR (NOT e AND g)) + K ! t + fips_W block t;
          T2 = (word_rotr 2 a XOR word_rotr 13 a XOR word_rotr 22 a)
                 + ((a AND b) XOR (a AND c) XOR (b AND c))
      in (T1 + T2, a, b, c, d + T1, e, f, g))"

definition fips_compress :: "u32 list \<Rightarrow> bytes \<Rightarrow> u32 list" where
  "fips_compress H block =
     add_regs H (foldl (fips_round block) (load_regs H) [0..<64])"

fun blocks :: "bytes \<Rightarrow> bytes list" where
  "blocks xs = (if length xs < 64 then [] else take 64 xs # blocks (drop 64 xs))"

declare blocks.simps [simp del]

definition be_bytes :: "nat \<Rightarrow> nat \<Rightarrow> bytes" where
  "be_bytes n v = map (\<lambda>i. of_nat (v div 256 ^ (n - 1 - i))) [0..<n]"

definition fips_pad :: "bytes \<Rightarrow> bytes" where
  "fips_pad msg =
     msg @ [0x80] @ replicate ((119 - length msg mod 64) mod 64) 0 @ be_bytes 8 (8 * length msg)"

definition fips_H0 :: "u32 list" where
  "fips_H0 = sha_state (reset zero_mem)"

definition fips_sha256 :: "bytes \<Rightarrow> bytes" where
  "fips_sha256 msg =
     concat (map (\<lambda>w. be_bytes 4 (unat w)) (foldl fips_compress fips_H0 (blocks (fips_pad msg))))"

section \<open>The compression function\<close>

lemma rotr_word_rotr: "0 < n \<Longrightarrow> n < 32 \<Longrightarrow> rotr x n = word_rotr n x"
proof (rule bit_eqI)
  fix k assume n: "0 < n" "n < 32" and "possible_bit TYPE(u32) k"
  then have k: "k < 32" by simp
  show "bit (rotr x n) k = bit (word_rotr n x) k"
  proof (cases "k + n < 32")
    case True
    with k n show ?thesis by (auto simp: rotr_def bit_word_rotr_iff bit_simps add.commute)
  next
    case False
    with k n have "(k + n) mod 32 = k - (32 - n)" by (simp add: mod_if)
    with k n False show ?thesis
      by (auto simp: rotr_def bit_word_rotr_iff bit_simps dest: bit_imp_le_length)
  qed
qed

lemma be_word_value:
  "unat (push_bit 24 (ucast b0) OR push_bit 16 (ucast b1) OR push_bit 8 (ucast b2)
       OR ucast (b3 :: u8) :: u32) = be_value [b0, b1, b2, b3]"
proof -
  have "(push_bit 24 (ucast b0) OR push_bit 16 (ucast b1) OR push_bit 8 (ucast b2)
       OR ucast b3 :: u32) = word_of_le [b3, b2, b1, b0]"
    by (simp add: numeral_2_eq_2 numeral_3_eq_3 ac_simps)
  then show ?thesis
    by (simp only: be_value_def rev.simps append.simps)
      (rule unat_word_of_le, simp)
qed

lemma block_word_fips:
  assumes "length block = 64" "i < 16"
  shows "block_word block i = of_nat (be_value (take 4 (drop (4 * i) block)))"
proof -
  have "take 4 (drop (4 * i) block) =
      [block ! (i * 4), block ! (i * 4 + 1), block ! (i * 4 + 2), block ! (i * 4 + 3)]"
    by (rule nth_equalityI) (use assms in \<open>auto simp: nth_Cons' mult.commute less_Suc_eq numeral_eq_Suc\<close>)
  then have "be_value (take 4 (drop (4 * i) block)) = unat (block_word block i)"
    by (simp only: block_word_def be_word_value)
  then show ?thesis by simp
qed

lemma schedule_prefix:
  assumes "length block = 64"
  shows "n \<le> 48 \<Longrightarrow>
    foldl schedule_step (map (block_word block) [0..<16]) [16..<16 + n] = map (fips_W block) [0..<16 + n]"
proof (induction n)
  case 0
  show ?case using assms by (auto simp: block_word_fips fips_W.simps)
next
  case (Suc n)
  let ?m = "map (fips_W block) [0..<16 + n]"
  have idx: "16 + n - k < 16 + n" if "0 < k" "k \<le> 16" for k using that by simp
  have "schedule_step ?m (16 + n) = ?m @ [fips_W block (16 + n)]"
    unfolding schedule_step_def Let_def fips_W.simps [of block "16 + n"] sigma0_def sigma1_def
    by (simp add: idx rotr_word_rotr ac_simps)
  moreover have "[16..<16 + Suc n] = [16..<16 + n] @ [16 + n]"
    and "[0..<16 + Suc n] = [0..<16 + n] @ [16 + n]"
    by (simp_all only: add_Suc_right upt_Suc_append le_add1 le0)
  ultimately show ?case using Suc by (simp only: foldl_append map_append) simp
qed

lemma schedule_fips: "length block = 64 \<Longrightarrow> schedule block = map (fips_W block) [0..<64]"
  using schedule_prefix [of block 48] by (simp add: schedule_def)

lemma round_step_fips:
  "i < 64 \<Longrightarrow> length block = 64 \<Longrightarrow> round_step (schedule block) r i = fips_round block r i"
  by (cases "(schedule block, r, i)" rule: round_step.cases)
    (simp add: Let_def schedule_fips rotr_word_rotr ac_simps)

lemma foldl_round_fips:
  "length block = 64 \<Longrightarrow> n \<le> 64 \<Longrightarrow>
     foldl (round_step (schedule block)) r [0..<n] = foldl (fips_round block) r [0..<n]"
  by (induction n) (simp_all add: round_step_fips)

lemma transform_fips:
  "length block = 64 \<Longrightarrow>
     transform block h = h\<lparr>sha_state := fips_compress (sha_state h) block\<rparr>"
  by (simp add: transform_def Let_def fips_compress_def foldl_round_fips)

section \<open>Streaming\<close>

lemma update_foldR: "update h xs = foldR update_byte h xs"
  by (induction xs arbitrary: h) auto

lemma blocks_append:
  "length xs mod 64 = 0 \<Longrightarrow> blocks (xs @ ys) = blocks xs @ blocks ys"
proof (induction xs rule: blocks.induct)
  case (1 xs)
  show ?case
  proof (cases "length xs < 64")
    case True
    with "1.prems" have "xs = []" by simp
    then show ?thesis by (simp add: blocks.simps [of "[]"])
  next
    case False
    then have "length (drop 64 xs) mod 64 = 0"
      using "1.prems" by (simp add: mod_if [of "length xs" 64])
    with "1.IH" False have "blocks (drop 64 xs @ ys) = blocks (drop 64 xs) @ blocks ys" by simp
    with False show ?thesis by (simp add: blocks.simps [of "xs @ ys"] blocks.simps [of xs])
  qed
qed

lemma blocks_single: "length xs = 64 \<Longrightarrow> blocks xs = [xs]"
  by (simp add: blocks.simps [of xs] blocks.simps [of "[]"])

text \<open>
  \<open>sha_seen h msg\<close>: the object \<open>h\<close> has absorbed the bytes \<open>msg\<close>: the full blocks are hashed
  into the state and counted (in bits, modulo 2 to the 64), the rest waits in the buffer.
\<close>

definition sha_seen :: "Sha256 \<Rightarrow> bytes \<Rightarrow> bool" where
  "sha_seen h msg \<longleftrightarrow>
     (\<exists>full rest. msg = full @ rest \<and> length full mod 64 = 0 \<and> length rest < 64
        \<and> length (sha_buf h) = 64 \<and> sha_buflen h = length rest
        \<and> take (length rest) (sha_buf h) = rest
        \<and> sha_state h = foldl fips_compress fips_H0 (blocks full)
        \<and> sha_bitlen h = of_nat (8 * length full))"

definition sha_inv :: "Sha256 \<Rightarrow> bool" where
  "sha_inv h \<longleftrightarrow> length (sha_buf h) = 64 \<and> sha_buflen h < 64"

lemma sha_seen_inv: "sha_seen h msg \<Longrightarrow> sha_inv h"
  by (auto simp: sha_seen_def sha_inv_def)

lemma sha_seen_reset: "length (sha_buf mem) = 64 \<Longrightarrow> sha_seen (reset mem) []"
  by (auto simp: sha_seen_def reset_def fips_H0_def blocks.simps)

lemma sha_seen_step:
  assumes "sha_seen h msg"
  shows "\<exists>h'. update_byte h x = Inr h' \<and> sha_seen h' (msg @ [x])"
proof -
  from assms obtain full rest where
    msg: "msg = full @ rest" and full: "length full mod 64 = 0" and rest: "length rest < 64"
    and buf: "length (sha_buf h) = 64" "sha_buflen h = length rest"
      "take (length rest) (sha_buf h) = rest"
    and st: "sha_state h = foldl fips_compress fips_H0 (blocks full)"
    and bl: "sha_bitlen h = of_nat (8 * length full)"
    by (auto simp: sha_seen_def)
  let ?buf = "(sha_buf h)[length rest := x]"
  have take_buf: "take (Suc (length rest)) ?buf = rest @ [x]"
    using buf rest by (simp add: take_Suc_conv_app_nth)
  show ?thesis
  proof (cases "length rest = 63")
    case False
    then have "update_byte h x = Inr (h\<lparr>sha_buf := ?buf, sha_buflen := Suc (length rest)\<rparr>)"
      using rest buf by (simp add: update_byte_def)
    moreover have "sha_seen (h\<lparr>sha_buf := ?buf, sha_buflen := Suc (length rest)\<rparr>) (msg @ [x])"
      unfolding sha_seen_def
      by (rule exI [of _ full], rule exI [of _ "rest @ [x]"])
        (use False rest full buf st bl msg take_buf in simp)
    ultimately show ?thesis by blast
  next
    case True
    then have blk: "?buf = rest @ [x]" using take_buf buf by simp
    let ?h = "h\<lparr>sha_buf := rest @ [x], sha_buflen := 0,
                sha_state := fips_compress (sha_state h) (rest @ [x]),
                sha_bitlen := sha_bitlen h + 512\<rparr>"
    have "update_byte h x = Inr ?h"
      using True buf blk by (simp add: update_byte_def transform_fips)
    moreover have "sha_seen ?h (msg @ [x])"
      unfolding sha_seen_def
      by (rule exI [of _ "full @ rest @ [x]"], rule exI [of _ "[]"])
        (use True full st bl msg in
          \<open>simp add: blocks_append blocks_single mod_add_left_eq [symmetric, of "length full"]\<close>)
    ultimately show ?thesis by blast
  qed
qed

interpretation sha: absorber update_byte sha_seen
  by unfold_locales (rule sha_seen_step)

lemma update_seen: "sha_seen h msg \<Longrightarrow> \<exists>h'. update h xs = Inr h' \<and> sha_seen h' (msg @ xs)"
  unfolding update_foldR by (rule sha.absorb_all)

lemma pad_count:
  "b < 64 \<Longrightarrow> b \<noteq> 56 \<Longrightarrow>
     (120 - b) mod 64 = Suc ((120 - (if b = 63 then 0 else Suc b)) mod (64 :: nat))"
  by (cases "b < 56") (auto simp: mod_if)

lemma pad_zeros_seen:
  "sha_seen h msg \<Longrightarrow>
     \<exists>h'. pad_zeros h = Inr h' \<and> sha_seen h' (msg @ replicate ((120 - length msg mod 64) mod 64) 0)"
proof (induction h arbitrary: msg rule: pad_zeros.induct)
  case (1 h)
  have bl: "sha_buflen h = length msg mod 64"
    using "1.prems" by (auto simp: sha_seen_def mod_add_left_eq [symmetric])
  show ?case
  proof (cases "sha_buflen h = 56")
    case True
    with bl "1.prems" show ?thesis by (simp add: pad_zeros.simps [of h])
  next
    case False
    obtain h1 where h1: "update h [0] = Inr h1" "sha_seen h1 (msg @ [0])"
      using update_seen [OF "1.prems"] by blast
    obtain h2 where h2: "pad_zeros h1 = Inr h2"
      "sha_seen h2 ((msg @ [0]) @ replicate ((120 - length (msg @ [0]) mod 64) mod 64) 0)"
      using "1.IH" [OF False h1(1) h1(2)] by blast
    have k: "(120 - length msg mod 64) mod 64 = Suc ((120 - length (msg @ [0]) mod 64) mod 64)"
      using pad_count [of "length msg mod 64"] False bl by (auto simp: mod_Suc)
    show ?thesis
      using False h1(1) h2 by (simp add: pad_zeros.simps [of h] k del: length_append)
  qed
qed

lemma length_bytes_be: "length_bytes (of_nat v) = be_bytes 8 v"
proof -
  have "ucast (drop_bit (56 - i * 8) (of_nat v :: u64)) = (of_nat (v div 256 ^ (8 - 1 - i)) :: u8)"
    if "i < 8" for i
  proof -
    have "56 - i * 8 = 8 * (8 - 1 - i)" by simp
    then have "ucast (drop_bit (56 - i * 8) (of_nat v :: u64)) = byte_at (of_nat v :: u64) (8 - 1 - i)"
      by (simp only: byte_at_def)
    also have "\<dots> = of_nat (v div 256 ^ (8 - 1 - i))"
      by (rule byte_at_of_nat) simp
    finally show ?thesis .
  qed
  then show ?thesis
    unfolding length_bytes_def be_bytes_def by (intro map_cong) (auto simp only: set_upt atLeastLessThan_iff)
qed

lemma state_bytes_be:
  assumes "length s = 8"
  shows "state_bytes s = concat (map (\<lambda>w. be_bytes 4 (unat w)) s)"
proof -
  have "[ucast (drop_bit 24 w), ucast (drop_bit 16 w), ucast (drop_bit 8 w), ucast w]
      = be_bytes 4 (unat w)" for w :: u32
  proof -
    have "[ucast (drop_bit 24 w), ucast (drop_bit 16 w), ucast (drop_bit 8 w), ucast w]
        = [byte_at w 3, byte_at w 2, byte_at w 1, byte_at w 0]"
      by (simp add: byte_at_def)
    also have "\<dots> = be_bytes 4 (unat w)"
      by (simp add: be_bytes_def upt_4 byte_at_unat numeral_3_eq_3)
    finally show ?thesis .
  qed
  then have "state_bytes s = concat (map (\<lambda>w. be_bytes 4 (unat w)) (map ((!) s) [0..<length s]))"
    by (simp add: state_bytes_def assms comp_def)
  then show ?thesis by (simp only: map_nth)
qed

lemma length_be_bytes [simp]: "length (be_bytes n v) = n"
  by (simp add: be_bytes_def)

lemma length_add_regs [simp]: "length (add_regs s r) = 8"
  by (cases "(s, r)" rule: add_regs.cases) simp

lemma length_compress [simp]: "length (fips_compress H b) = 8"
  by (simp add: fips_compress_def)

lemma length_hash_state: "length (foldl fips_compress fips_H0 bs) = 8"
  by (induction bs rule: rev_induct) (simp_all add: fips_H0_def reset_def)

lemma dvd_imp_eq_0_nat: "(k :: nat) dvd n \<Longrightarrow> n < k \<Longrightarrow> n = 0"
  using nat_dvd_not_less by blast

lemma sha_seen_full:
  assumes "sha_seen h msg" "length msg mod 64 = 0"
  shows "sha_state h = foldl fips_compress fips_H0 (blocks msg)"
proof -
  from assms(1) obtain full rest where m: "msg = full @ rest" "length full mod 64 = 0"
    "length rest < 64" "sha_state h = foldl fips_compress fips_H0 (blocks full)"
    by (auto simp: sha_seen_def)
  have "64 dvd length full" by (rule mod_0_imp_dvd) (rule m(2))
  moreover have "64 dvd length full + length rest"
    by (rule mod_0_imp_dvd) (use assms(2) m(1) in simp)
  ultimately have "64 dvd length rest" by (rule dvd_add_right_iff [THEN iffD1])
  then have "length rest = 0" using m(3) by (rule dvd_imp_eq_0_nat)
  with m(1,4) show ?thesis by simp
qed

lemma sha_seen_bits:
  "sha_seen h msg \<Longrightarrow> sha_bitlen h + of_nat (sha_buflen h) * 8 = of_nat (8 * length msg)"
  by (auto simp: sha_seen_def algebra_simps)

lemma fips_pad_steps:
  "((msg @ [0x80]) @ replicate ((120 - length (msg @ [0x80]) mod 64) mod 64) 0)
      @ be_bytes 8 (8 * length msg) = fips_pad msg"
proof -
  have "(120 - Suc (length msg) mod 64) mod 64 = (119 - length msg mod 64) mod (64::nat)"
    by (simp add: mod_Suc)
  then show ?thesis by (simp add: fips_pad_def)
qed

lemma pad_total: "b < 64 \<Longrightarrow> (b + 1 + (119 - b) mod 64 + 8) mod 64 = (0 :: nat)"
proof (cases "b < 56")
  case True
  then have "119 - b = 64 + (55 - b)" by simp
  then have "(119 - b) mod 64 = (55 - b) mod 64" by (simp only: mod_add_self1)
  also have "\<dots> = 55 - b" by (rule mod_less) simp
  finally have "b + 1 + (119 - b) mod 64 + 8 = 64" using True by simp
  then show ?thesis by simp
next
  case False
  assume b: "b < 64"
  have "(119 - b) mod 64 = 119 - b" by (rule mod_less) (use False in simp)
  then have "b + 1 + (119 - b) mod 64 + 8 = 128" using b by simp
  then show ?thesis by simp
qed

lemma length_fips_pad: "length (fips_pad msg) mod 64 = 0"
proof -
  have "length (fips_pad msg) mod 64 =
      (length msg mod 64 + (1 + (119 - length msg mod 64) mod 64 + 8)) mod 64"
    by (simp only: mod_add_left_eq) (simp add: fips_pad_def)
  then show ?thesis
    using pad_total [of "length msg mod 64"] by (simp add: ac_simps)
qed

lemma finish_seen:
  assumes "sha_seen h msg"
  shows "\<exists>h'. finish h = Inr (fips_sha256 msg, h') \<and> sha_inv h'"
proof -
  obtain h1 where h1: "update h [0x80] = Inr h1" "sha_seen h1 (msg @ [0x80])"
    using update_seen [OF assms] by blast
  obtain h2 where h2: "pad_zeros h1 = Inr h2"
    "sha_seen h2 ((msg @ [0x80]) @ replicate ((120 - length (msg @ [0x80]) mod 64) mod 64) 0)"
    using pad_zeros_seen [OF h1(2)] by blast
  obtain h3 where h3: "update h2 (be_bytes 8 (8 * length msg)) = Inr h3" "sha_seen h3 (fips_pad msg)"
    using update_seen [OF h2(2), of "be_bytes 8 (8 * length msg)"]
    by (simp only: fips_pad_steps) blast
  have "state_bytes (sha_state h3) = fips_sha256 msg"
    using sha_seen_full [OF h3(2) length_fips_pad] length_hash_state
    by (simp add: fips_sha256_def state_bytes_be)
  then have "finish h = Inr (fips_sha256 msg, h3)"
    using h1(1) h2(1) h3(1)
    by (simp only: finish_def Let_def sha_seen_bits [OF assms] length_bytes_be bindR_simps)
  then show ?thesis using sha_seen_inv [OF h3(2)] by blast
qed

lemma sha256_mem_fips: "length (sha_buf mem) = 64 \<Longrightarrow> sha256_mem mem data = Inr (fips_sha256 data)"
  using update_seen [OF sha_seen_reset, of mem data] finish_seen
  by (fastforce simp: sha256_mem_def)

lemma sha256_fips: "sha256 data = Inr (fips_sha256 data)"
  by (simp add: sha256_def sha256_mem_fips zero_mem_def)

lemma sha256d_fips: "sha256d data = Inr (fips_sha256 (fips_sha256 data))"
  by (simp add: sha256d_def sha256_fips)

lemma length_fips_sha256 [simp]: "length (fips_sha256 data) = 32"
proof -
  have "length (concat (map (\<lambda>w. be_bytes 4 (unat w)) ws)) = 4 * length ws" for ws :: "u32 list"
    by (induction ws) auto
  then show ?thesis by (simp add: fips_sha256_def length_hash_state)
qed

text \<open>
  C1: Hashing a message in any number of pieces of any lengths, from a freshly reset object
  with any buffer contents, gives the SHA-256 digest of the concatenated message as FIPS 180-4
  defines it: no write leaves the buffer, the padding loop ends, and the message length counter
  wraps modulo 2 to the 64 exactly as the standard's 64-bit length field does.
\<close>

theorem sha256_streaming_correct:
  assumes "length (sha_buf mem) = 64"
  shows "\<exists>h h'. foldR update (reset mem) pieces = Inr h
           \<and> finish h = Inr (fips_sha256 (concat pieces), h')"
proof -
  have upd: "update = foldR update_byte"
    by (intro ext) (rule update_foldR)
  obtain h where "foldR update (reset mem) pieces = Inr h" "sha_seen h ([] @ concat pieces)"
    using sha.absorb_chunks [OF sha_seen_reset [OF assms], of pieces] unfolding upd by blast
  then show ?thesis using finish_seen by fastforce
qed

theorem sha256_streaming_correct_witness:
  "\<exists>h h'. foldR update (reset zero_mem) [[0x61], [], [0x62, 0x63]] = Inr h
     \<and> finish h = Inr (fips_sha256 [0x61, 0x62, 0x63], h')"
  using sha256_streaming_correct [of zero_mem "[[0x61], [], [0x62, 0x63]]"]
  by (simp add: zero_mem_def)

end
