(* ===== verification/Json.thy ===== *)
theory Json
  imports Double
begin

text \<open>
  The JSON library (nlohmann::json, fetched by the build) as a parameter. A component that
  reads or writes JSON takes a record of the library's operations it calls, over an arbitrary
  type \<open>'j\<close> of JSON values; nothing is assumed of them but where a lemma names what it needs.

  Each field is one member of the library with the outcomes its documentation gives: \<open>get\<close> on a
  value of another type, \<open>at\<close> on a missing key and \<open>value\<close> on a value that is not an object
  throw; \<open>operator[]\<close> of a constant value is undefined behaviour on a missing key or index.
\<close>

record 'j json_api =
  jparse :: "string \<Rightarrow> 'j res"                 \<comment> \<open>\<open>json::parse\<close>\<close>
  jread :: "string \<Rightarrow> 'j res"                  \<comment> \<open>\<open>in >> j\<close>, given all of the stream\<close>
  jdump :: "'j \<Rightarrow> string res"                  \<comment> \<open>\<open>dump()\<close>: throws on strings that are not UTF-8\<close>
  jdump2 :: "'j \<Rightarrow> string res"                 \<comment> \<open>\<open>dump(2)\<close>\<close>
  is_null :: "'j \<Rightarrow> bool"
  is_array :: "'j \<Rightarrow> bool"
  is_object :: "'j \<Rightarrow> bool"
  is_string :: "'j \<Rightarrow> bool"
  is_boolean :: "'j \<Rightarrow> bool"
  jsize :: "'j \<Rightarrow> nat"
  jelems :: "'j \<Rightarrow> 'j list"                    \<comment> \<open>range-based \<open>for\<close> over an array\<close>
  jidx :: "'j \<Rightarrow> nat \<Rightarrow> 'j res"                \<comment> \<open>\<open>operator[](size_type) const\<close>\<close>
  jcontains :: "'j \<Rightarrow> string \<Rightarrow> bool"
  jfield :: "'j \<Rightarrow> string \<Rightarrow> 'j res"           \<comment> \<open>\<open>operator[](key) const\<close>\<close>
  jat :: "'j \<Rightarrow> string \<Rightarrow> 'j res"
  get_string :: "'j \<Rightarrow> string res"
  get_int :: "'j \<Rightarrow> i32 res"
  get_double :: "'j \<Rightarrow> double res"
  get_bool :: "'j \<Rightarrow> bool res"
  value_json :: "'j \<Rightarrow> string \<Rightarrow> 'j \<Rightarrow> 'j res"
  value_string :: "'j \<Rightarrow> string \<Rightarrow> string \<Rightarrow> string res"
  value_int :: "'j \<Rightarrow> string \<Rightarrow> i32 \<Rightarrow> i32 res"
  value_u16 :: "'j \<Rightarrow> string \<Rightarrow> u16 \<Rightarrow> u16 res"
  value_u64 :: "'j \<Rightarrow> string \<Rightarrow> u64 \<Rightarrow> u64 res"
  value_bool :: "'j \<Rightarrow> string \<Rightarrow> bool \<Rightarrow> bool res"
  value_double :: "'j \<Rightarrow> string \<Rightarrow> double \<Rightarrow> double res"
  jnull :: "'j"
  jstring :: "string \<Rightarrow> 'j"
  jint :: "i32 \<Rightarrow> 'j"
  ju64 :: "u64 \<Rightarrow> 'j"
  jdouble :: "double \<Rightarrow> 'j"
  jarray :: "'j list \<Rightarrow> 'j"
  jobject :: "(string \<times> 'j) list \<Rightarrow> 'j"

text \<open>
  What the components rely on. An element of an array is read by its position; reading a string
  gives it or throws; a boolean can be read; \<open>contains\<close> is only true of a key that \<open>operator[]\<close>
  finds in an object; \<open>at\<close> and the parser throw where they fail; \<open>value\<close> gives its default for a
  key the object does not have.
\<close>

locale json_laws =
  fixes J :: "'j json_api"
  assumes size_array: "is_array J v \<Longrightarrow> jsize J v = length (jelems J v)"
    and idx_array: "is_array J v \<Longrightarrow> i < jsize J v \<Longrightarrow> jidx J v i = Inr (jelems J v ! i)"
    and get_string_defined: "get_string J v \<noteq> Inl Undefined"
    and get_bool_boolean: "is_boolean J v \<Longrightarrow> \<exists>b. get_bool J v = Inr b"
    and contains_field: "jcontains J v k \<Longrightarrow> \<exists>x. jfield J v k = Inr x"
    and contains_object: "jcontains J v k \<Longrightarrow> is_object J v"
    and at_defined: "jat J v k \<noteq> Inl Undefined"
    and parse_defined: "jparse J s \<noteq> Inl Undefined"
    and read_defined: "jread J s \<noteq> Inl Undefined"
    and value_string_defined: "value_string J v k ds \<noteq> Inl Undefined"
    and value_json_defined: "value_json J v k dj \<noteq> Inl Undefined"
    and value_string_absent: "is_object J v \<Longrightarrow> \<not> jcontains J v k \<Longrightarrow> value_string J v k ds = Inr ds"
    and value_json_absent: "is_object J v \<Longrightarrow> \<not> jcontains J v k \<Longrightarrow> value_json J v k dj = Inr dj"
    and value_int_absent: "is_object J v \<Longrightarrow> \<not> jcontains J v k \<Longrightarrow> value_int J v k di = Inr di"
    and value_u16_absent: "is_object J v \<Longrightarrow> \<not> jcontains J v k \<Longrightarrow> value_u16 J v k dp = Inr dp"
    and value_double_absent: "is_object J v \<Longrightarrow> \<not> jcontains J v k \<Longrightarrow> value_double J v k dd = Inr dd"

section \<open>A concrete instance\<close>

text \<open>
  JSON values as a datatype, with the accessors as documented. It shows that what the lemmas
  ask of the library can hold, and evaluates the components on concrete messages. Text is
  abstract: \<open>parse\<close> and \<open>dump\<close> are given as a finite table of the lines in question.
\<close>

datatype jv =
    JNull | JBool bool | JInt int | JDouble double | JStr string
  | JArr "jv list" | JObj "(string \<times> jv) list"

definition type_error :: "'a res" where
  "type_error = Inl (Throw Json_error)"

fun jv_field :: "jv \<Rightarrow> string \<Rightarrow> jv option" where
  "jv_field (JObj kvs) k = map_of kvs k"
| "jv_field _ _ = None"

fun jv_value :: "(jv \<Rightarrow> 'a res) \<Rightarrow> jv \<Rightarrow> string \<Rightarrow> 'a \<Rightarrow> 'a res" where
  "jv_value get (JObj kvs) k d = (case map_of kvs k of None \<Rightarrow> Inr d | Some v \<Rightarrow> get v)"
| "jv_value get _ k d = type_error"

fun jv_str :: "jv \<Rightarrow> string res" where
  "jv_str (JStr s) = Inr s"
| "jv_str _ = type_error"

fun jv_num :: "jv \<Rightarrow> int res" where
  "jv_num (JInt n) = Inr n"
| "jv_num _ = type_error"

fun jv_dbl :: "jv \<Rightarrow> double res" where
  "jv_dbl (JInt n) = Inr (rnd (of_int n))"
| "jv_dbl (JDouble d) = Inr d"
| "jv_dbl _ = type_error"

fun jv_bool :: "jv \<Rightarrow> bool res" where
  "jv_bool (JBool b) = Inr b"
| "jv_bool _ = type_error"

definition jv_word :: "jv \<Rightarrow> 'a::len word res" where
  "jv_word v = bindR (jv_num v) (\<lambda>n. Inr (word_of_int n))"

definition jv_api :: "(string \<times> jv) list \<Rightarrow> jv json_api" where
  "jv_api table = \<lparr>
     jparse = (\<lambda>s. case map_of table s of None \<Rightarrow> Inl (Throw Json_error) | Some v \<Rightarrow> Inr v),
     jread = (\<lambda>s. case map_of table s of None \<Rightarrow> Inl (Throw Json_error) | Some v \<Rightarrow> Inr v),
     jdump = (\<lambda>v. case map_of (map prod.swap table) v of None \<Rightarrow> Inr ''?'' | Some s \<Rightarrow> Inr s),
     jdump2 = (\<lambda>v. case map_of (map prod.swap table) v of None \<Rightarrow> Inr ''?'' | Some s \<Rightarrow> Inr s),
     is_null = (\<lambda>v. v = JNull),
     is_array = (\<lambda>v. case v of JArr _ \<Rightarrow> True | _ \<Rightarrow> False),
     is_object = (\<lambda>v. case v of JObj _ \<Rightarrow> True | _ \<Rightarrow> False),
     is_string = (\<lambda>v. case v of JStr _ \<Rightarrow> True | _ \<Rightarrow> False),
     is_boolean = (\<lambda>v. case v of JBool _ \<Rightarrow> True | _ \<Rightarrow> False),
     jsize = (\<lambda>v. case v of JArr xs \<Rightarrow> length xs | JObj kvs \<Rightarrow> length kvs | JNull \<Rightarrow> 0 | _ \<Rightarrow> 1),
     jelems = (\<lambda>v. case v of JArr xs \<Rightarrow> xs | _ \<Rightarrow> []),
     jidx = (\<lambda>v i. case v of JArr xs \<Rightarrow> if i < length xs then Inr (xs ! i) else Inl Undefined
                            | _ \<Rightarrow> type_error),
     jcontains = (\<lambda>v k. jv_field v k \<noteq> None),
     jfield = (\<lambda>v k. case v of JObj kvs \<Rightarrow> (case map_of kvs k of None \<Rightarrow> Inl Undefined | Some x \<Rightarrow> Inr x)
                              | _ \<Rightarrow> type_error),
     jat = (\<lambda>v k. case jv_field v k of None \<Rightarrow> type_error | Some x \<Rightarrow> Inr x),
     get_string = jv_str, get_int = jv_word, get_double = jv_dbl, get_bool = jv_bool,
     value_json = jv_value Inr, value_string = jv_value jv_str, value_int = jv_value jv_word,
     value_u16 = jv_value jv_word, value_u64 = jv_value jv_word, value_bool = jv_value jv_bool,
     value_double = jv_value jv_dbl,
     jnull = JNull, jstring = JStr, jint = (\<lambda>n. JInt (sint n)), ju64 = (\<lambda>n. JInt (uint n)),
     jdouble = JDouble, jarray = JArr, jobject = JObj\<rparr>"

lemmas jv_api_simps = jv_api_def type_error_def jv_word_def

lemma jv_str_defined: "jv_str v \<noteq> Inl Undefined" "Inl Undefined \<noteq> jv_str v"
  by (cases v; simp add: type_error_def)+

interpretation jv: json_laws "jv_api table"
  by unfold_locales
    (auto simp: jv_api_def type_error_def jv_str_defined split: jv.splits option.splits
      elim!: jv_value.elims jv_field.elims)

end
