(* ===== verification/Stratum.thy ===== *)
theory Stratum
  imports Target Sha256 Json
begin

text \<open>
  Work for the miner: the job structures of \<open>src/miner/job.hpp\<close> and \<open>src/stratum/job.hpp\<close>, the
  parsing of \<open>mining.notify\<close> and \<open>mining.subscribe\<close> (\<open>src/stratum/parse.cpp\<close>) and the assembly of
  the 80-byte block header (\<open>src/stratum/work.cpp\<close>). A function with an output parameter returns
  the parameter's final value beside its result. The lemmas show the header layout byte for
  byte, that a rejected \<open>mining.notify\<close> changes nothing, which inputs are rejected, and what a
  rejected \<open>mining.subscribe\<close> leaves behind.
\<close>

section \<open>Definitions\<close>

record MiningJob =
  blob :: bytes
  nonce_offset :: u32
  target :: Hash256
  job_id :: string
  generation :: u64
  extranonce2_hex :: string
  ntime_hex :: string

definition MiningJob_init :: MiningJob where
  "MiningJob_init = \<lparr>blob = [], nonce_offset = 0, target = zero256, job_id = [], generation = 0,
     extranonce2_hex = [], ntime_hex = []\<rparr>"

record StratumJob =
  sj_job_id :: string
  prevhash :: string
  coinb1 :: string
  coinb2 :: string
  merkle_branch :: "string list"
  version :: string
  nbits :: string
  ntime :: string
  clean_jobs :: bool

definition StratumJob_init :: StratumJob where
  "StratumJob_init = \<lparr>sj_job_id = [], prevhash = [], coinb1 = [], coinb2 = [], merkle_branch = [],
     version = [], nbits = [], ntime = [], clean_jobs = False\<rparr>"

definition idx_string :: "'j json_api \<Rightarrow> 'j \<Rightarrow> nat \<Rightarrow> string res" where
  "idx_string J p i = bindR (jidx J p i) (get_string J)"

text \<open>The body of the \<open>try\<close> block of \<open>parse_notify\<close>: \<open>None\<close> is its early \<open>return false\<close>.\<close>

definition parse_notify_body :: "'j json_api \<Rightarrow> 'j \<Rightarrow> StratumJob option res" where
  "parse_notify_body J p =
     bindR (idx_string J p 0) (\<lambda>job_id.
     bindR (idx_string J p 1) (\<lambda>prevhash.
     bindR (idx_string J p 2) (\<lambda>coinb1.
     bindR (idx_string J p 3) (\<lambda>coinb2.
     bindR (jidx J p 4) (\<lambda>nodes.
     if \<not> is_array J nodes then Inr None
     else
     bindR (mapR (get_string J) (jelems J nodes)) (\<lambda>merkle_branch.
     bindR (idx_string J p 5) (\<lambda>version.
     bindR (idx_string J p 6) (\<lambda>nbits.
     bindR (idx_string J p 7) (\<lambda>ntime.
     bindR (jidx J p 8) (\<lambda>p8.
     bindR (if is_boolean J p8 then get_bool J p8 else Inr False) (\<lambda>clean_jobs.
     Inr (Some \<lparr>sj_job_id = job_id, prevhash = prevhash, coinb1 = coinb1, coinb2 = coinb2,
       merkle_branch = merkle_branch, version = version, nbits = nbits, ntime = ntime,
       clean_jobs = clean_jobs\<rparr>))))))))))))"

definition parse_notify :: "'j json_api \<Rightarrow> 'j \<Rightarrow> StratumJob \<Rightarrow> (bool \<times> StratumJob) res" where
  "parse_notify J p out =
     (if \<not> is_array J p \<or> jsize J p < 9 then Inr (False, out)
      else catchR
        (bindR (parse_notify_body J p) (\<lambda>r. case r of None \<Rightarrow> Inr (False, out) | Some j \<Rightarrow> Inr (True, j)))
        (\<lambda>e. Inr (False, out)))"

text \<open>
  \<open>parse_subscribe\<close> assigns its two output parameters one after the other, inside the \<open>try\<close>
  block: an exception on the second leaves the first assigned.
\<close>

definition parse_subscribe :: "'j json_api \<Rightarrow> 'j \<Rightarrow> string \<Rightarrow> i32 \<Rightarrow> (bool \<times> string \<times> i32) res" where
  "parse_subscribe J r extranonce1 extranonce2_size =
     (if \<not> is_array J r \<or> jsize J r < 3 then Inr (False, extranonce1, extranonce2_size)
      else case idx_string J r 1 of
        Inl (Throw e) \<Rightarrow> Inr (False, extranonce1, extranonce2_size)
      | Inl Undefined \<Rightarrow> Inl Undefined
      | Inr xn1 \<Rightarrow>
          (case bindR (jidx J r 2) (get_int J) of
             Inl (Throw e) \<Rightarrow> Inr (False, xn1, extranonce2_size)
           | Inl Undefined \<Rightarrow> Inl Undefined
           | Inr xn2_size \<Rightarrow> Inr (0 < sint xn2_size \<and> sint xn2_size \<le> 8, xn1, xn2_size)))"

text \<open>
  \<open>std::vector<uint8_t> b(static_cast<std::size_t>(size), 0)\<close> throws \<open>std::length_error\<close> for a
  negative \<open>size\<close>; a shift of a 64-bit value by 64 or more is undefined.
\<close>

definition encode_extranonce2 :: "u64 \<Rightarrow> i32 \<Rightarrow> string res" where
  "encode_extranonce2 value sz =
     (if sint sz < 0 then Inl (Throw Std_error)
      else
        let n = nat (sint sz) in
        bindR (mapR (\<lambda>i. if 64 \<le> 8 * (n - 1 - i) then Inl Undefined
                         else Inr (ucast (drop_bit (8 * (n - 1 - i)) value))) [0..<n])
          (\<lambda>b. Inr (to_hex b)))"

text \<open>The loop over the merkle branch; \<open>None\<close> is the early \<open>return false\<close>.\<close>

fun merkle_loop :: "bytes \<Rightarrow> string list \<Rightarrow> bytes option res" where
  "merkle_loop merkle [] = Inr (Some merkle)"
| "merkle_loop merkle (node # nodes) =
     bindR (from_hex node) (\<lambda>nb.
     if length nb \<noteq> 32 then Inr None
     else bindR (sha256d (merkle @ nb)) (\<lambda>merkle'. merkle_loop merkle' nodes))"

definition put4 :: "bytes \<Rightarrow> nat \<Rightarrow> u8 \<Rightarrow> u8 \<Rightarrow> u8 \<Rightarrow> u8 \<Rightarrow> bytes" where
  "put4 h off b0 b1 b2 b3 = h[off := b0, off + 1 := b1, off + 2 := b2, off + 3 := b3]"

definition put32 :: "bytes \<Rightarrow> nat \<Rightarrow> u32 \<Rightarrow> bytes" where
  "put32 h off v = put4 h off (byte_at v 0) (byte_at v 1) (byte_at v 2) (byte_at v 3)"

definition memcpy :: "bytes \<Rightarrow> nat \<Rightarrow> bytes \<Rightarrow> bytes" where
  "memcpy h off src = take off h @ src @ drop (off + length src) h"

definition layout_header :: "u32 \<Rightarrow> bytes \<Rightarrow> bytes \<Rightarrow> u32 \<Rightarrow> u32 \<Rightarrow> bytes" where
  "layout_header ver ph merkle nt nb =
     (let h = replicate 80 0;
          h = put32 h 0 ver;
          h = foldl (\<lambda>h w. put4 h (4 + w * 4) (ph ! (w * 4 + 3)) (ph ! (w * 4 + 2))
                             (ph ! (w * 4 + 1)) (ph ! (w * 4 + 0))) h [0..<8];
          h = memcpy h 36 merkle;
          h = put32 h 68 nt;
          h = put32 h 72 nb
      in h)"

definition build_work_body ::
    "StratumJob \<Rightarrow> string \<Rightarrow> string \<Rightarrow> double \<Rightarrow> MiningJob \<Rightarrow> MiningJob option res" where
  "build_work_body j xn1 xn2_hex share_diff out =
     bindR (from_hex (coinb1 j)) (\<lambda>c1.
     bindR (from_hex (coinb2 j)) (\<lambda>c2.
     bindR (from_hex xn1) (\<lambda>xn1b.
     bindR (from_hex xn2_hex) (\<lambda>xn2b.
     bindR (sha256d (c1 @ xn1b @ xn2b @ c2)) (\<lambda>merkle0.
     bindR (merkle_loop merkle0 (merkle_branch j)) (\<lambda>mr.
     case mr of
       None \<Rightarrow> Inr None
     | Some merkle \<Rightarrow>
         bindR (be32_from_hex (version j)) (\<lambda>ver.
         bindR (be32_from_hex (nbits j)) (\<lambda>nb.
         bindR (be32_from_hex (ntime j)) (\<lambda>nt.
         bindR (from_hex (prevhash j)) (\<lambda>ph.
         if length ph \<noteq> 32 then Inr None
         else bindR (target_from_difficulty share_diff) (\<lambda>tgt.
           Inr (Some (out\<lparr>blob := layout_header ver ph merkle nt nb,
             nonce_offset := 76, target := tgt, job_id := sj_job_id j,
             extranonce2_hex := xn2_hex, ntime_hex := ntime j\<rparr>)))))))))))))"

definition build_work ::
    "StratumJob \<Rightarrow> string \<Rightarrow> string \<Rightarrow> double \<Rightarrow> MiningJob \<Rightarrow> (bool \<times> MiningJob) res" where
  "build_work j xn1 xn2_hex share_diff out =
     catchR
       (bindR (build_work_body j xn1 xn2_hex share_diff out) (\<lambda>r.
          case r of None \<Rightarrow> Inr (False, out) | Some w \<Rightarrow> Inr (True, w)))
       (\<lambda>e. Inr (False, out))"

section \<open>Header layout\<close>

text \<open>
  The header is written front to back: each step fills the next bytes of a buffer whose tail is
  still zero.
\<close>

definition filled :: "bytes \<Rightarrow> bytes" where
  "filled pre = pre @ replicate (80 - length pre) 0"

lemma length_put4 [simp]: "length (put4 h off b0 b1 b2 b3) = length h"
  by (simp add: put4_def)

lemma put4_filled:
  assumes "length pre = off" "off + 4 \<le> 80"
  shows "put4 (filled pre) off b0 b1 b2 b3 = filled (pre @ [b0, b1, b2, b3])"
proof -
  have "replicate 4 (0 :: u8) = [0, 0, 0, 0]" by (simp add: numeral_eq_Suc)
  moreover have "80 - length pre = 4 + (80 - (length pre + 4))" using assms by simp
  ultimately have "replicate (80 - length pre) (0 :: u8) = [0, 0, 0, 0] @ replicate (80 - (length pre + 4)) 0"
    by (metis replicate_add)
  then show ?thesis
    using assms(1) by (simp add: put4_def filled_def list_update_append)
qed

lemma put32_filled:
  assumes "length pre = off" "off + 4 \<le> 80"
  shows "put32 (filled pre) off v = filled (pre @ le32 v)"
  using put4_filled [OF assms] by (simp add: put32_def le32_def)

lemma memcpy_filled:
  assumes "length pre = off" "off + length src \<le> 80"
  shows "memcpy (filled pre) off src = filled (pre @ src)"
  using assms by (simp add: memcpy_def filled_def)

text \<open>Byte reversal of every 32-bit word, the order in which pools send the previous hash.\<close>

fun swap_words :: "bytes \<Rightarrow> bytes" where
  "swap_words (a # b # c # d # rest) = d # c # b # a # swap_words rest"
| "swap_words rest = rest"

lemma length_swap_words [simp]: "length (swap_words bs) = length bs"
  by (induction bs rule: swap_words.induct) auto

lemma swap_words_swap_words [simp]: "swap_words (swap_words bs) = bs"
  by (induction bs rule: swap_words.induct) auto

lemma swap_words_snoc:
  "length bs = 4 * n \<Longrightarrow> swap_words (bs @ [a, b, c, d]) = swap_words bs @ [d, c, b, a]"
proof (induction n arbitrary: bs)
  case (Suc n)
  then have "length bs = Suc (Suc (Suc (Suc (4 * n))))" by simp
  then obtain a' b' c' d' rest where bs: "bs = a' # b' # c' # d' # rest" "length rest = 4 * n"
    unfolding length_Suc_conv by blast
  then show ?case using Suc.IH [OF bs(2)] by simp
qed simp

lemma prevhash_loop:
  assumes "length pre = 4" "length ph = 32" "n \<le> 8"
  shows "foldl (\<lambda>h w. put4 h (4 + w * 4) (ph ! (w * 4 + 3)) (ph ! (w * 4 + 2))
           (ph ! (w * 4 + 1)) (ph ! (w * 4 + 0))) (filled pre) [0..<n]
       = filled (pre @ swap_words (take (4 * n) ph))"
  using assms(3)
proof (induction n)
  case 0
  then show ?case by simp
next
  case (Suc n)
  have t: "take (4 * Suc n) ph = take (4 * n) ph @ [ph ! (4 * n), ph ! (4 * n + 1), ph ! (4 * n + 2), ph ! (4 * n + 3)]"
    using Suc.prems assms(2) by (simp add: take_Suc_conv_app_nth numeral_eq_Suc)
  have l: "length (take (4 * n) ph) = 4 * n" using Suc.prems assms(2) by simp
  show ?case
    using Suc assms t swap_words_snoc [OF l]
    by (simp add: put4_filled mult.commute)
qed

lemma layout_header_bytes:
  assumes "length ph = 32" "length mr = 32"
  shows "layout_header ver ph mr nt nb
       = le32 ver @ swap_words ph @ mr @ le32 nt @ le32 nb @ [0, 0, 0, 0]"
proof -
  have z: "replicate 80 0 = filled []" by (simp add: filled_def)
  have "layout_header ver ph mr nt nb
      = filled (le32 ver @ swap_words ph @ mr @ le32 nt @ le32 nb)"
    using assms prevhash_loop [of "le32 ver" ph 8]
    by (simp add: layout_header_def Let_def z put32_filled memcpy_filled)
  then show ?thesis
    using assms by (simp add: filled_def numeral_eq_Suc)
qed

section \<open>Work assembly\<close>

text \<open>
  What \<open>build_work\<close> is to compute, over the decoded fields: \<open>hex_field n s\<close> is the field of
  exactly \<open>n\<close> bytes that the string \<open>s\<close> encodes, and the merkle root folds the branch into the
  hash of the coinbase by double SHA-256 of the FIPS definition.
\<close>

definition hex_any :: "string \<Rightarrow> bytes option" where
  "hex_any s = (case from_hex s of Inr b \<Rightarrow> Some b | Inl e \<Rightarrow> None)"

definition hex_field :: "nat \<Rightarrow> string \<Rightarrow> bytes option" where
  "hex_field n s = (case hex_any s of Some b \<Rightarrow> if length b = n then Some b else None | None \<Rightarrow> None)"

definition dsha :: "bytes \<Rightarrow> bytes" where
  "dsha data = fips_sha256 (fips_sha256 data)"

definition merkle_root :: "bytes \<Rightarrow> bytes list \<Rightarrow> bytes" where
  "merkle_root coinbase branch = foldl (\<lambda>m node. dsha (m @ node)) (dsha coinbase) branch"

definition work_header :: "StratumJob \<Rightarrow> string \<Rightarrow> string \<Rightarrow> bytes option" where
  "work_header j xn1 xn2 =
     Option.bind (hex_any (coinb1 j)) (\<lambda>c1.
     Option.bind (hex_any (coinb2 j)) (\<lambda>c2.
     Option.bind (hex_any xn1) (\<lambda>x1.
     Option.bind (hex_any xn2) (\<lambda>x2.
     Option.bind (those (map (hex_field 32) (merkle_branch j))) (\<lambda>branch.
     Option.bind (hex_field 4 (version j)) (\<lambda>ver.
     Option.bind (hex_field 4 (nbits j)) (\<lambda>nb.
     Option.bind (hex_field 4 (ntime j)) (\<lambda>nt.
     Option.bind (hex_field 32 (prevhash j)) (\<lambda>ph.
       Some (rev ver @ swap_words ph @ merkle_root (c1 @ x1 @ x2 @ c2) branch
         @ rev nt @ rev nb @ [0, 0, 0, 0]))))))))))"

lemma length_dsha [simp]: "length (dsha data) = 32"
  by (simp add: dsha_def)

lemma sha256d_dsha [simp]: "sha256d data = Inr (dsha data)"
  by (simp add: sha256d_fips dsha_def)

lemma length_merkle_fold [simp]:
  "length m = 32 \<Longrightarrow> length (foldl (\<lambda>m node. dsha (m @ node)) m branch) = 32"
  by (induction branch arbitrary: m) auto

lemma length_merkle_root [simp]: "length (merkle_root coinbase branch) = 32"
  by (simp add: merkle_root_def)

text \<open>A fallible decoding seen through \<open>catchR\<close>: the handler only keeps \<open>out\<close>.\<close>

lemma catch_from_hex:
  "catchR (bindR (from_hex s) f) h
     = (case hex_any s of None \<Rightarrow> catchR (bindR (from_hex s) f) h | Some b \<Rightarrow> catchR (f b) h)"
  by (auto simp: hex_any_def split: sum.splits)

lemma hex_any_None: "hex_any s = None \<Longrightarrow> \<exists>e. from_hex s = Inl (Throw e)"
  by (auto simp: hex_any_def dest: from_hex_throws split: sum.splits)

lemma hex_any_Some: "hex_any s = Some b \<Longrightarrow> from_hex s = Inr b"
  by (auto simp: hex_any_def split: sum.splits)

lemma be32_None: "hex_field 4 s = None \<Longrightarrow> \<exists>e. be32_from_hex s = Inl (Throw e)"
  using from_hex_throws [of s]
  by (auto simp: hex_field_def hex_any_def be32_from_hex_def split: sum.splits if_splits)

lemma be32_Some: "hex_field 4 s = Some b \<Longrightarrow> be32_from_hex s = Inr (word_of_le (rev b)) \<and> length b = 4"
  by (auto simp: hex_field_def hex_any_def be32_from_hex_4 split: sum.splits if_splits)

lemma merkle_loop_Some:
  "those (map (hex_field 32) nodes) = Some branch \<Longrightarrow>
     merkle_loop m nodes = Inr (Some (foldl (\<lambda>m node. dsha (m @ node)) m branch))"
  by (induction nodes arbitrary: m branch)
    (auto simp: hex_field_def dest!: hex_any_Some split: option.splits if_splits)

lemma merkle_loop_None:
  "those (map (hex_field 32) nodes) = None \<Longrightarrow>
     merkle_loop m nodes = Inr None \<or> (\<exists>e. merkle_loop m nodes = Inl (Throw e))"
proof (induction nodes arbitrary: m)
  case (Cons node nodes)
  show ?case
  proof (cases "hex_field 32 node")
    case None
    then show ?thesis
      by (auto simp: hex_field_def dest!: hex_any_Some hex_any_None split: option.splits if_splits)
  next
    case (Some nb)
    then have "merkle_loop m (node # nodes) = merkle_loop (dsha (m @ nb)) nodes"
      by (auto simp: hex_field_def dest!: hex_any_Some split: option.splits if_splits)
    then show ?thesis using Some Cons by auto
  qed
qed simp

lemma build_work_accepts:
  assumes h: "work_header j xn1 xn2 = Some hdr" and t: "target_from_difficulty diff = Inr t"
  shows "build_work j xn1 xn2 diff out =
     Inr (True, out\<lparr>blob := hdr, nonce_offset := 76, target := t, job_id := sj_job_id j,
        extranonce2_hex := xn2, ntime_hex := ntime j\<rparr>)"
proof -
  obtain c1 c2 x1 x2 branch ver nb nt ph where
    f: "hex_any (coinb1 j) = Some c1" "hex_any (coinb2 j) = Some c2" "hex_any xn1 = Some x1"
      "hex_any xn2 = Some x2" "those (map (hex_field 32) (merkle_branch j)) = Some branch"
      "hex_field 4 (version j) = Some ver" "hex_field 4 (nbits j) = Some nb"
      "hex_field 4 (ntime j) = Some nt" "hex_field 32 (prevhash j) = Some ph"
    and hdr: "hdr = rev ver @ swap_words ph @ merkle_root (c1 @ x1 @ x2 @ c2) branch
         @ rev nt @ rev nb @ [0, 0, 0, 0]"
    using h unfolding work_header_def by (auto simp: bind_eq_Some_conv)
  note w = f(6,7,8) [THEN be32_Some]
  have ph: "from_hex (prevhash j) = Inr ph" "length ph = 32"
    using f(9) by (auto simp: hex_field_def dest: hex_any_Some split: option.splits if_splits)
  show ?thesis
    using w ph t merkle_loop_Some [OF f(5)] f(1-4) [THEN hex_any_Some]
    by (simp add: build_work_def build_work_body_def layout_header_bytes le32_be32 hdr
        merkle_root_def [symmetric])
qed

text \<open>A body that gives up: by an early \<open>return false\<close> or by an exception, never undefined.\<close>

definition refused :: "'a option res \<Rightarrow> bool" where
  "refused r = (case r of Inr x \<Rightarrow> x = None | Inl f \<Rightarrow> f \<noteq> Undefined)"

lemma refused_None [simp]: "refused (Inr None)"
  by (simp add: refused_def)

lemma refused_hex:
  "(\<And>b. hex_any s = Some b \<Longrightarrow> refused (f b)) \<Longrightarrow> refused (bindR (from_hex s) f)"
  by (cases "hex_any s") (auto simp: refused_def dest!: hex_any_None hex_any_Some)

lemma refused_be32:
  "(\<And>b. hex_field 4 s = Some b \<Longrightarrow> refused (f (word_of_le (rev b)))) \<Longrightarrow>
     refused (bindR (be32_from_hex s) f)"
  by (cases "hex_field 4 s") (auto simp: refused_def dest!: be32_None be32_Some)

lemma refused_merkle:
  "(\<And>br m'. those (map (hex_field 32) nodes) = Some br \<Longrightarrow> refused (f (Some m'))) \<Longrightarrow>
     refused (f None) \<Longrightarrow> refused (bindR (merkle_loop m nodes) f)"
  using merkle_loop_None [of nodes m] merkle_loop_Some [of nodes _ m]
  by (cases "those (map (hex_field 32) nodes)") (auto simp: refused_def)

lemma build_work_rejects:
  assumes "work_header j xn1 xn2 = None"
  shows "build_work j xn1 xn2 diff out = Inr (False, out)"
proof -
  have "refused (build_work_body j xn1 xn2 diff out)"
    unfolding build_work_body_def sha256d_dsha bindR_simps
  proof (intro refused_hex refused_merkle, goal_cases)
    case (1 c1 c2 x1 x2 br m)
    show ?case
      unfolding option.case
    proof (intro refused_be32 refused_hex)
      fix ver nb nt ph
      assume "hex_field 4 (version j) = Some ver" "hex_field 4 (nbits j) = Some nb"
        "hex_field 4 (ntime j) = Some nt" "hex_any (prevhash j) = Some ph"
      then have "length ph \<noteq> 32"
        using assms 1 by (auto simp: work_header_def hex_field_def)
      then show "refused (if length ph \<noteq> 32 then Inr None
         else bindR (target_from_difficulty diff) (\<lambda>tgt.
           Inr (Some (out\<lparr>blob := layout_header (word_of_le (rev ver)) ph m (word_of_le (rev nt)) (word_of_le (rev nb)),
             nonce_offset := 76, target := tgt, job_id := sj_job_id j,
             extranonce2_hex := xn2, ntime_hex := ntime j\<rparr>))))"
        by simp
    qed
  qed simp
  then show ?thesis
    by (auto simp: build_work_def refused_def catchR_def split: sum.splits fault.splits)
qed

lemma build_work_fields:
  assumes "build_work j xn1 xn2 diff out = Inr (True, mj)"
  shows "extranonce2_hex mj = xn2" "job_id mj = sj_job_id j" "nonce_offset mj = 76"
  using assms
  by (auto simp: build_work_def build_work_body_def catchR_eq_Inr bindR_eq_Inr bindR_eq_Inl
      split: option.splits if_splits)

text \<open>
  C4: Work assembly. For a share difficulty of at least \<open>2\<^sup>-\<^sup>3\<^sup>2\<close> a job whose fields decode to the
  lengths the protocol asks for gives the 80-byte header \<open>version, previous hash with each word
  reversed, merkle root, time, bits, zero nonce\<close>, little endian, where the merkle root is the
  fold of the branch over the double hash of the coinbase with both extranonces inside; the
  nonce offset is 76 and the target is that of the difficulty. Any other job is refused and
  leaves the output as it was.
\<close>

theorem build_work_spec:
  assumes "dle (Fin (1 / 2 ^ 32)) diff"
  shows "case work_header j xn1 xn2 of
      None \<Rightarrow> build_work j xn1 xn2 diff out = Inr (False, out)
    | Some hdr \<Rightarrow> length hdr = 80 \<and>
        (\<exists>t. target_from_difficulty diff = Inr t \<and> length t = 32 \<and>
           build_work j xn1 xn2 diff out =
             Inr (True, out\<lparr>blob := hdr, nonce_offset := 76, target := t, job_id := sj_job_id j,
                extranonce2_hex := xn2, ntime_hex := ntime j\<rparr>))"
proof (cases "work_header j xn1 xn2")
  case None
  then show ?thesis by (simp add: build_work_rejects)
next
  case (Some hdr)
  obtain t where t: "target_from_difficulty diff = Inr t" "length t = 32"
    using target_from_difficulty_defined assms by auto
  have "length hdr = 80"
    using Some unfolding work_header_def hex_field_def
    by (auto simp: bind_eq_Some_conv split: option.splits if_splits)
  with t Some show ?thesis by (simp add: build_work_accepts)
qed

lemma hex_any_to_hex [simp]: "hex_any (to_hex bs) = Some bs"
  by (simp add: hex_any_def)

definition sample_job :: StratumJob where
  "sample_job = \<lparr>sj_job_id = ''1'', prevhash = to_hex (replicate 32 7), coinb1 = to_hex [1, 0],
     coinb2 = to_hex [2], merkle_branch = [to_hex (replicate 32 9)], version = to_hex [0x20, 0, 0, 4],
     nbits = to_hex [0x17, 3, 0x5A, 0xE4], ntime = to_hex [0x65, 1, 2, 3], clean_jobs = True\<rparr>"

theorem build_work_spec_witness:
  "dle (Fin (1 / 2 ^ 32)) (Fin 1) \<and>
   work_header sample_job (to_hex [8]) (to_hex [0, 1]) = Some
     ([4, 0, 0, 0x20] @ replicate 32 7 @ merkle_root [1, 0, 8, 0, 1, 2] [replicate 32 9]
       @ [3, 2, 1, 0x65] @ [0xE4, 0x5A, 3, 0x17] @ [0, 0, 0, 0]) \<and>
   (\<exists>w. build_work sample_job (to_hex [8]) (to_hex [0, 1]) (Fin 1) MiningJob_init = Inr (True, w)
      \<and> length (blob w) = 80 \<and> ntime_hex w = to_hex [0x65, 1, 2, 3]) \<and>
   build_work (sample_job\<lparr>version := to_hex [1]\<rparr>) (to_hex [8]) (to_hex [0, 1]) (Fin 1) MiningJob_init
     = Inr (False, MiningJob_init)"
proof -
  let ?j = "sample_job\<lparr>version := to_hex [1]\<rparr>"
  have swap: "swap_words (replicate 32 7) = replicate 32 7" by code_simp
  have h: "work_header sample_job (to_hex [8]) (to_hex [0, 1]) = Some
     ([4, 0, 0, 0x20] @ replicate 32 7 @ merkle_root [1, 0, 8, 0, 1, 2] [replicate 32 9]
       @ [3, 2, 1, 0x65] @ [0xE4, 0x5A, 3, 0x17] @ [0, 0, 0, 0])"
    by (simp add: work_header_def sample_job_def hex_field_def swap del: to_hex.simps)
  have bad: "work_header ?j (to_hex [8]) (to_hex [0, 1]) = None"
    by (simp add: work_header_def sample_job_def hex_field_def del: to_hex.simps)
  have ok: "\<exists>w. build_work sample_job (to_hex [8]) (to_hex [0, 1]) (Fin 1) MiningJob_init = Inr (True, w)
      \<and> length (blob w) = 80 \<and> ntime_hex w = ntime sample_job"
    using build_work_spec [of "Fin 1" sample_job "to_hex [8]" "to_hex [0, 1]" MiningJob_init] h
    by (auto simp del: to_hex.simps)
  show ?thesis
    using build_work_spec [of "Fin 1" ?j "to_hex [8]" "to_hex [0, 1]" MiningJob_init] h ok bad
    by (simp add: sample_job_def del: to_hex.simps)
qed

section \<open>Parsing\<close>

text \<open>The nine parameters of \<open>mining.notify\<close> read off the elements of the array.\<close>

definition notify_params :: "'j json_api \<Rightarrow> 'j list \<Rightarrow> StratumJob \<Rightarrow> bool" where
  "notify_params J vs j =
     (9 \<le> length vs \<and>
      map (get_string J) (map (nth vs) [0, 1, 2, 3, 5, 6, 7])
        = map Inr [sj_job_id j, prevhash j, coinb1 j, coinb2 j, version j, nbits j, ntime j] \<and>
      is_array J (vs ! 4) \<and> map (get_string J) (jelems J (vs ! 4)) = map Inr (merkle_branch j) \<and>
      (if is_boolean J (vs ! 8) then get_bool J (vs ! 8) = Inr (clean_jobs j) else \<not> clean_jobs j))"

context json_laws
begin

lemma mapR_get_string: "(mapR (get_string J) vs = Inr ss) = (map (get_string J) vs = map Inr ss)"
  by (auto simp: res_simps list_all2_conv_all_nth list_eq_iff_nth_eq)

lemma nine_elems:
  assumes "is_array J p" "9 \<le> jsize J p" "i < 9"
  shows "idx_string J p i = get_string J (jelems J p ! i)" "jidx J p i = Inr (jelems J p ! i)"
  using assms by (simp_all add: idx_string_def idx_array)

lemma parse_notify_body_iff:
  assumes "is_array J p" "9 \<le> jsize J p"
  shows "(parse_notify_body J p = Inr (Some j)) = notify_params J (jelems J p) j"
  using assms size_array [OF assms(1)]
  by (cases j) (auto simp: parse_notify_body_def notify_params_def nine_elems [OF assms]
      mapR_get_string bindR_eq_Inr split: if_splits)

lemma mapR_get_string_defined [simp]: "mapR (get_string J) vs \<noteq> Inl Undefined"
  by (induction vs) (auto simp: res_simps get_string_defined)

lemma parse_notify_body_defined:
  assumes "is_array J p" "9 \<le> jsize J p"
  shows "parse_notify_body J p \<noteq> Inl Undefined"
  using assms get_bool_boolean [of "jelems J p ! 8"]
  by (auto simp: parse_notify_body_def nine_elems [OF assms] bindR_eq_Inl get_string_defined
      split: if_splits)

lemma parse_notify_cases:
  "if is_array J p \<and> (\<exists>j. notify_params J (jelems J p) j)
   then \<exists>j. notify_params J (jelems J p) j \<and> parse_notify J p out = Inr (True, j)
   else parse_notify J p out = Inr (False, out)"
proof (cases "is_array J p \<and> 9 \<le> jsize J p")
  case False
  then show ?thesis
    by (auto simp: parse_notify_def notify_params_def size_array not_le)
next
  case True
  note iff = parse_notify_body_iff [OF True [THEN conjunct1] True [THEN conjunct2]]
  show ?thesis
  proof (cases "\<exists>j. notify_params J (jelems J p) j")
    case yes: True
    then obtain j where "parse_notify_body J p = Inr (Some j)" using iff by auto
    with True yes iff show ?thesis by (auto simp: parse_notify_def)
  next
    case no: False
    have "refused (parse_notify_body J p)"
      using no iff parse_notify_body_defined [of p] True
      by (auto simp: refused_def split: sum.splits option.splits) (metis not_None_eq)
    then show ?thesis
      using True no by (auto simp: parse_notify_def refused_def catchR_def split: sum.splits fault.splits)
  qed
qed

lemma parse_subscribe_elems:
  assumes "is_array J r" "3 \<le> jsize J r"
  shows "parse_subscribe J r xn1 sz =
     (case get_string J (jelems J r ! 1) of
        Inl f \<Rightarrow> Inr (False, xn1, sz)
      | Inr s \<Rightarrow> (case get_int J (jelems J r ! 2) of
           Inl Undefined \<Rightarrow> Inl Undefined
         | Inl (Throw e) \<Rightarrow> Inr (False, s, sz)
         | Inr n \<Rightarrow> Inr (0 < sint n \<and> sint n \<le> 8, s, n)))"
  using assms get_string_defined [of "jelems J r ! 1"]
  by (auto simp: parse_subscribe_def idx_string_def idx_array bindR_def split: sum.splits fault.splits)

end

text \<open>
  C24: \<open>mining.notify\<close>. Over a JSON library that keeps its documented laws, a parameter value is
  accepted exactly when it is an array of at least nine elements with strings where the
  protocol has strings and an array of strings for the merkle branch; the job then holds those
  strings, and \<open>clean_jobs\<close> is false when the ninth is no boolean. Any other value returns
  false and leaves the output as it was; nothing throws.
\<close>

theorem parse_notify_spec:
  assumes "json_laws J"
  shows "if is_array J p \<and> (\<exists>j. notify_params J (jelems J p) j)
   then \<exists>j. notify_params J (jelems J p) j \<and> parse_notify J p out = Inr (True, j)
   else parse_notify J p out = Inr (False, out)"
  by (rule json_laws.parse_notify_cases [OF assms])

theorem parse_notify_spec_witness:
  "json_laws (jv_api []) \<and>
   parse_notify (jv_api []) (JArr [JStr ''1'', JStr ''p'', JStr ''a'', JStr ''b'', JArr [JStr ''m''],
       JStr ''v'', JStr ''n'', JStr ''t'', JInt 0]) StratumJob_init
     = Inr (True, \<lparr>sj_job_id = ''1'', prevhash = ''p'', coinb1 = ''a'', coinb2 = ''b'',
         merkle_branch = [''m''], version = ''v'', nbits = ''n'', ntime = ''t'', clean_jobs = False\<rparr>) \<and>
   parse_notify (jv_api []) (JArr [JStr ''1'']) sample_job = Inr (False, sample_job)"
proof -
  let ?j = "\<lparr>sj_job_id = ''1'', prevhash = ''p'', coinb1 = ''a'', coinb2 = ''b'',
         merkle_branch = [''m''], version = ''v'', nbits = ''n'', ntime = ''t'', clean_jobs = False\<rparr>"
  let ?p = "JArr [JStr ''1'', JStr ''p'', JStr ''a'', JStr ''b'', JArr [JStr ''m''],
       JStr ''v'', JStr ''n'', JStr ''t'', JInt 0]"
  have laws: "json_laws (jv_api [])" by (rule jv.json_laws_axioms)
  have arr: "is_array (jv_api []) ?p" by (simp add: jv_api_def)
  have np: "notify_params (jv_api []) (jelems (jv_api []) ?p) j = (j = ?j)" for j
    by (cases j) (auto simp: notify_params_def jv_api_def nth_Cons')
  have "parse_notify (jv_api []) ?p StratumJob_init = Inr (True, ?j)"
    using parse_notify_spec [OF laws, of ?p StratumJob_init] arr by (simp add: np)
  moreover have "\<not> notify_params (jv_api []) (jelems (jv_api []) (JArr [JStr ''1''])) j" for j
    by (simp add: notify_params_def jv_api_def)
  ultimately show ?thesis
    using laws parse_notify_spec [OF laws, of "JArr [JStr ''1'']" sample_job] by simp
qed

text \<open>
  \<open>mining.subscribe\<close>. For an array of at least three elements with a string second and an
  integer third, the answer says whether the integer lies in 1 to 8, but both values are stored
  in either case: a refused answer replaces the extranonce and leaves a size that the range
  check has just refused. A value that is no such array changes nothing.
\<close>

theorem parse_subscribe_stores_refused:
  assumes "json_laws J"
  shows "if is_array J r \<and> 3 \<le> jsize J r
   then (case (get_string J (jelems J r ! 1), get_int J (jelems J r ! 2)) of
           (Inr s, Inr n) \<Rightarrow> parse_subscribe J r xn1 sz = Inr (0 < sint n \<and> sint n \<le> 8, s, n)
         | (Inr s, Inl (Throw e)) \<Rightarrow> parse_subscribe J r xn1 sz = Inr (False, s, sz)
         | (Inr s, Inl Undefined) \<Rightarrow> parse_subscribe J r xn1 sz = Inl Undefined
         | (Inl f, _) \<Rightarrow> parse_subscribe J r xn1 sz = Inr (False, xn1, sz))
   else parse_subscribe J r xn1 sz = Inr (False, xn1, sz)"
  using json_laws.parse_subscribe_elems [OF assms, of r xn1 sz]
  by (auto simp: parse_subscribe_def split: sum.splits fault.splits)

theorem parse_subscribe_stores_refused_witness:
  "json_laws (jv_api []) \<and>
   parse_subscribe (jv_api []) (JArr [JNull, JStr ''ab'', JInt 4]) [] 0 = Inr (True, ''ab'', 4) \<and>
   parse_subscribe (jv_api []) (JArr [JNull, JStr ''ab'', JInt 9]) [] 0 = Inr (False, ''ab'', 9) \<and>
   parse_subscribe (jv_api []) (JArr [JNull, JStr ''ab'', JNull]) [] 0 = Inr (False, ''ab'', 0) \<and>
   parse_subscribe (jv_api []) JNull [] 0 = Inr (False, [], 0)"
proof -
  have laws: "json_laws (jv_api [])" by (rule jv.json_laws_axioms)
  note spec = parse_subscribe_stores_refused [OF laws, of _ "[]" 0]
  have "sint (4 :: i32) = 4" "sint (9 :: i32) = 9" by simp_all
  then show ?thesis
    using laws spec [of "JArr [JNull, JStr ''ab'', JInt 4]"] spec [of "JArr [JNull, JStr ''ab'', JInt 9]"]
      spec [of "JArr [JNull, JStr ''ab'', JNull]"] spec [of JNull]
    by (simp add: jv_api_simps numeral_2_eq_2)
qed

section \<open>Extranonce\<close>

lemma encode_bytes:
  assumes "0 \<le> sint sz" "sint sz \<le> 8"
  shows "encode_extranonce2 value sz = Inr (to_hex (rev (map (byte_at value) [0..<nat (sint sz)])))"
proof -
  let ?n = "nat (sint sz)"
  let ?f = "\<lambda>i. if 64 \<le> 8 * (?n - 1 - i) then Inl Undefined
                else Inr (ucast (drop_bit (8 * (?n - 1 - i)) value) :: u8)"
  have "mapR ?f [0..<?n] = Inr (rev (map (byte_at value) [0..<?n]))"
    using assms by (auto simp: mapR_eq_Inr list_all2_conv_all_nth rev_nth byte_at_def)
  then show ?thesis using assms by (simp add: encode_extranonce2_def Let_def)
qed

lemma encode_too_wide: "8 < sint sz \<Longrightarrow> encode_extranonce2 value sz = Inl Undefined"
proof -
  assume "8 < sint sz"
  moreover from this have "[0..<nat (sint sz)] = 0 # [1..<nat (sint sz)]" by (simp add: upt_rec)
  ultimately show ?thesis by (simp add: encode_extranonce2_def Let_def del: upt.simps)
qed

lemma be_value_counter:
  "be_value (rev (map (byte_at v) [0..<n])) = unat v mod 256 ^ n"
  by (simp add: be_value_def le_value_bytes)

lemma encode_same_iff:
  assumes "0 \<le> sint sz" "sint sz \<le> 8"
  shows "(encode_extranonce2 v sz = encode_extranonce2 w sz)
     = (unat v mod 256 ^ nat (sint sz) = unat w mod 256 ^ nat (sint sz))"
proof -
  let ?b = "\<lambda>v. rev (map (byte_at v) [0..<nat (sint sz)])"
  have "to_hex (?b v) = to_hex (?b w) \<longleftrightarrow> ?b v = ?b w"
    by (metis from_hex_to_hex sum.inject(2))
  also have "\<dots> = (be_value (?b v) = be_value (?b w))"
    by (metis (no_types, lifting) be_value_def le_value_inj length_map rev_rev_ident length_rev)
  finally show ?thesis
    by (simp only: encode_bytes [OF assms] be_value_counter sum.inject)
qed

text \<open>
  The extranonce counter is sent as big-endian hex of the agreed size. For a size of 0 to 8
  the string has two digits a byte and its value is the counter modulo \<open>256\<^sup>s\<^sup>i\<^sup>z\<^sup>e\<close>, so two
  counters get the same string only when they agree modulo that; a negative size throws, and a
  size over 8 shifts a 64-bit value by 64 or more, which is undefined.
\<close>

theorem encode_extranonce2_spec:
  "if sint sz < 0 then encode_extranonce2 v sz = Inl (Throw Std_error)
   else if 8 < sint sz then encode_extranonce2 v sz = Inl Undefined
   else \<exists>s bs. encode_extranonce2 v sz = Inr s \<and> from_hex s = Inr bs
      \<and> length bs = nat (sint sz) \<and> be_value bs = unat v mod 256 ^ nat (sint sz)
      \<and> (encode_extranonce2 w sz = Inr s) = (unat v mod 256 ^ nat (sint sz) = unat w mod 256 ^ nat (sint sz))"
proof -
  consider "sint sz < 0" | "8 < sint sz" | "0 \<le> sint sz" "sint sz \<le> 8" by linarith
  then show ?thesis
  proof cases
    case 3
    then show ?thesis
      using encode_bytes [OF 3, of v] encode_same_iff [OF 3, of v w] by (auto simp: be_value_counter)
  next
    case 2
    then show ?thesis by (simp add: encode_too_wide)
  next
    case 1
    then show ?thesis by (simp add: encode_extranonce2_def)
  qed
qed

end
