(* ===== verification/Worker.thy ===== *)
theory Worker
  imports Stratum
begin

text \<open>
  The miner's thread pool (\<open>src/miner/worker.cpp\<close>). The worker loop \<open>MinerPool::run\<close> is a machine
  with one program point per access to shared state, so that a run is an interleaving of the
  steps of the workers and of the thread that calls the pool's methods. Memory is sequentially
  consistent. The hashing kernel is a parameter, the operations of \<open>IHasher\<close> and of its factory on the
  state of an engine that all workers share. The inner loop over a chunk of nonces touches only the
  worker's own data, reads the engine, and is one step, given by a function of its own.
\<close>

section \<open>Definitions\<close>

subsection \<open>The pool and its sequential methods\<close>

record MinerPool =
  threads :: u32
  low_priority :: bool
  running :: bool
  paused :: bool
  in_flight :: u32
  hashes :: u64
  work_gen :: u64
  hasher_gen :: u64
  work :: "MiningJob option"

definition MinerPool_init :: "u32 \<Rightarrow> bool \<Rightarrow> MinerPool" where
  "MinerPool_init n low = \<lparr>threads = (if n = 0 then 1 else n), low_priority = low, running = False,
     paused = False, in_flight = 0, hashes = 0, work_gen = 0, hasher_gen = 0, work = None\<rparr>"

text \<open>
  \<open>set_work\<close> and \<open>clear_work\<close> touch shared state twice: the generation is bumped, then the job is
  stored under the mutex.
\<close>

definition set_work_bump :: "MiningJob \<Rightarrow> MinerPool \<Rightarrow> MiningJob \<times> MinerPool" where
  "set_work_bump job p = (job\<lparr>generation := work_gen p + 1\<rparr>, p\<lparr>work_gen := work_gen p + 1\<rparr>)"

definition set_work_store :: "MiningJob \<Rightarrow> MinerPool \<Rightarrow> MinerPool" where
  "set_work_store copy p = p\<lparr>work := Some copy\<rparr>"

definition set_work :: "MiningJob \<Rightarrow> MinerPool \<Rightarrow> MinerPool" where
  "set_work job p = (let (copy, p) = set_work_bump job p in set_work_store copy p)"

definition clear_work_bump :: "MinerPool \<Rightarrow> MinerPool" where
  "clear_work_bump p = p\<lparr>work_gen := work_gen p + 1\<rparr>"

definition clear_work_store :: "MinerPool \<Rightarrow> MinerPool" where
  "clear_work_store p = p\<lparr>work := None\<rparr>"

definition clear_work :: "MinerPool \<Rightarrow> MinerPool" where
  "clear_work p = clear_work_store (clear_work_bump p)"

definition pause_set :: "MinerPool \<Rightarrow> MinerPool" where
  "pause_set p = p\<lparr>paused := True\<rparr>"

definition resume :: "MinerPool \<Rightarrow> MinerPool" where
  "resume p = p\<lparr>paused := False\<rparr>"

definition rebuild_hashers :: "MinerPool \<Rightarrow> MinerPool" where
  "rebuild_hashers p = p\<lparr>hasher_gen := hasher_gen p + 1\<rparr>"

subsection \<open>A chunk of nonces\<close>

text \<open>A share as \<open>on_share\<close> gets it.\<close>

type_synonym share = "MiningJob \<times> u32 \<times> bytes"

text \<open>The four writes of the nonce into the blob; a write past its end is undefined.\<close>

definition put_nonce :: "bytes \<Rightarrow> u32 \<Rightarrow> u32 \<Rightarrow> bytes res" where
  "put_nonce bs off nonce =
     (if unat off + 4 \<le> length bs then
        Inr (bs[unat off := byte_at nonce 0, unat off + 1 := byte_at nonce 1,
                  unat off + 2 := byte_at nonce 2, unat off + 3 := byte_at nonce 3])
      else Inl Undefined)"

definition kChunk :: u32 where
  "kChunk = 16"

text \<open>
  The \<open>for\<close> loop, with \<open>n\<close> iterations left: the blob, the nonce, the number of hashes done and
  the shares found, and the nonces tried, in order.
\<close>

fun chunk_loop ::
    "nat \<Rightarrow> (bytes \<Rightarrow> bytes) \<Rightarrow> u32 \<Rightarrow> MiningJob \<Rightarrow> bytes \<Rightarrow> u32 \<Rightarrow> u32
      \<Rightarrow> (bytes \<times> u32 \<times> u32 \<times> share list \<times> u32 list) res" where
  "chunk_loop 0 hash t job bs nonce done = Inr (bs, nonce, done, [], [])"
| "chunk_loop (Suc n) hash t job bs nonce done =
     bindR (put_nonce bs (nonce_offset job) nonce) (\<lambda>bs.
       let digest = hash bs;
           shares = (if meets_target digest (target job) then [(job, nonce, digest)] else []);
           nonce' = nonce + t
       in if nonce' < t then Inr (bs, nonce', done + 1, shares, [nonce])
          else bindR (chunk_loop n hash t job bs nonce' (done + 1)) (\<lambda>(bs, nonce', done, more, tried).
            Inr (bs, nonce', done, shares @ more, nonce # tried)))"

definition chunk ::
    "(bytes \<Rightarrow> bytes) \<Rightarrow> u32 \<Rightarrow> MiningJob \<Rightarrow> bytes \<Rightarrow> u32
      \<Rightarrow> (bytes \<times> u32 \<times> u32 \<times> share list \<times> u32 list) res" where
  "chunk hash t job bs nonce = chunk_loop (unat kChunk) hash t job bs nonce 0"

subsection \<open>The hashing kernel\<close>

text \<open>
  \<open>kn_make\<close> is the factory \<open>make_hasher_\<close>, which may throw, \<open>kn_drop\<close> the destructor of a hasher,
  \<open>kn_name\<close> and \<open>kn_hash\<close> its \<open>name\<close> and \<open>hash\<close>, and \<open>kn_rekey\<close> what the owner of the engine does to it while the pool is held.
  What a hasher computes depends on the engine it shares with the others.
\<close>

record ('k, 'e, 'h) kernel =
  kn_name :: string
  kn_make :: "'e \<Rightarrow> ('h \<times> 'e) res"
  kn_drop :: "'h \<Rightarrow> 'e \<Rightarrow> 'e"
  kn_hash :: "'e \<Rightarrow> 'h \<Rightarrow> bytes \<Rightarrow> bytes"
  kn_rekey :: "'k \<Rightarrow> 'e \<Rightarrow> 'e res"

text \<open>\<open>hasher = make_hasher_()\<close>: the old hasher is destroyed once the new one is there.\<close>

definition renew :: "('k, 'e, 'h) kernel \<Rightarrow> 'h option \<Rightarrow> 'e \<Rightarrow> ('h \<times> 'e) res" where
  "renew kn old e =
     bindR (kn_make kn e) (\<lambda>(h, e). Inr (h, case old of None \<Rightarrow> e | Some h' \<Rightarrow> kn_drop kn h' e))"

subsection \<open>The worker loop\<close>

text \<open>Program points of \<open>run\<close>, named after the access that comes next.\<close>

datatype pc =
    Start | Load_hasher_gen | Check_running | Check_paused | Check_hasher | Make_hasher | Reload_hasher_gen
  | Load_gen | Copy_work | Check_work | Enter | Recheck | Back_out | Hash_chunk | Leave | Add_hashes | Drop_hasher | Exited

record 'h Worker =
  pc :: pc
  hasher :: "'h option"
  local_hasher_gen :: u64
  local_job :: "MiningJob option"
  local_work_gen :: u64
  wblob :: bytes
  nonce :: u32
  gen :: u64
  hashed :: u32

definition Worker_init :: "'h Worker" where
  "Worker_init = \<lparr>pc = Start, hasher = None, local_hasher_gen = 0, local_job = None, local_work_gen = 0,
     wblob = [], nonce = 0, gen = 0, hashed = 0\<rparr>"

definition too_short :: "'h Worker \<Rightarrow> bool" where
  "too_short v = (case local_job v of None \<Rightarrow> True | Some j \<Rightarrow> length (wblob v) < unat (nonce_offset j + 4))"

definition worker_step ::
    "('k, 'e, 'h) kernel \<Rightarrow> u32 \<Rightarrow> 'e \<times> MinerPool \<times> 'h Worker
      \<Rightarrow> ('e \<times> MinerPool \<times> 'h Worker \<times> share list \<times> u32 list) res" where
  "worker_step kn index epv = (case epv of (e, p, v) \<Rightarrow>
     (case pc v of
        Start \<Rightarrow> bindR (renew kn None e) (\<lambda>(h, e). Inr (e, p, v\<lparr>hasher := Some h, pc := Load_hasher_gen\<rparr>, [], []))
      | Load_hasher_gen \<Rightarrow> Inr (e, p, v\<lparr>local_hasher_gen := hasher_gen p, pc := Check_running\<rparr>, [], [])
      | Check_running \<Rightarrow> Inr (e, p, v\<lparr>pc := (if running p then Check_paused else Drop_hasher)\<rparr>, [], [])
      | Check_paused \<Rightarrow> Inr (e, p, v\<lparr>pc := (if paused p then Check_running else Check_hasher)\<rparr>, [], [])
      | Check_hasher \<Rightarrow>
          Inr (e, p, v\<lparr>pc := (if hasher_gen p \<noteq> local_hasher_gen v then Make_hasher else Load_gen)\<rparr>, [], [])
      | Make_hasher \<Rightarrow>
          bindR (renew kn (hasher v) e) (\<lambda>(h, e). Inr (e, p, v\<lparr>hasher := Some h, pc := Reload_hasher_gen\<rparr>, [], []))
      | Reload_hasher_gen \<Rightarrow> Inr (e, p, v\<lparr>local_hasher_gen := hasher_gen p, pc := Load_gen\<rparr>, [], [])
      | Load_gen \<Rightarrow>
          Inr (e, p, v\<lparr>gen := work_gen p, pc := (if work_gen p \<noteq> local_work_gen v then Copy_work else Check_work)\<rparr>, [], [])
      | Copy_work \<Rightarrow>
          (case work p of
             None \<Rightarrow> Inr (e, p, v\<lparr>local_job := None, local_work_gen := gen v, pc := Check_work\<rparr>, [], [])
           | Some j \<Rightarrow> Inr (e, p, v\<lparr>local_job := Some j, local_work_gen := gen v, wblob := blob j, nonce := index,
                                 pc := Check_work\<rparr>, [], []))
      | Check_work \<Rightarrow> Inr (e, p, v\<lparr>pc := (if too_short v then Check_running else Enter)\<rparr>, [], [])
      | Enter \<Rightarrow> Inr (e, p\<lparr>in_flight := in_flight p + 1\<rparr>, v\<lparr>pc := Recheck\<rparr>, [], [])
      | Recheck \<Rightarrow> Inr (e, p, v\<lparr>pc := (if paused p then Back_out else Hash_chunk)\<rparr>, [], [])
      | Back_out \<Rightarrow> Inr (e, p\<lparr>in_flight := in_flight p - 1\<rparr>, v\<lparr>pc := Check_running\<rparr>, [], [])
      | Hash_chunk \<Rightarrow>
          (case (hasher v, local_job v) of
             (Some h, Some j) \<Rightarrow>
               bindR (chunk (kn_hash kn e h) (threads p) j (wblob v) (nonce v)) (\<lambda>(bs, nn, d, shares, tried).
                 Inr (e, p, v\<lparr>wblob := bs, nonce := nn, hashed := d, pc := Leave\<rparr>, shares, tried))
           | _ \<Rightarrow> Inl Undefined)
      | Leave \<Rightarrow> Inr (e, p\<lparr>in_flight := in_flight p - 1\<rparr>, v\<lparr>pc := Add_hashes\<rparr>, [], [])
      | Add_hashes \<Rightarrow> Inr (e, p\<lparr>hashes := hashes p + ucast (hashed v)\<rparr>, v\<lparr>pc := Check_running\<rparr>, [], [])
      | Drop_hasher \<Rightarrow>
          Inr (case hasher v of None \<Rightarrow> e | Some h \<Rightarrow> kn_drop kn h e, p, v\<lparr>hasher := None, pc := Exited\<rparr>, [], [])
      | Exited \<Rightarrow> Inr (e, p, v, [], [])))"

subsection \<open>The system\<close>

text \<open>
  The calling thread between two accesses: idle, between the two halves of \<open>set_work\<close> or
  \<open>clear_work\<close>, in the waiting loop of \<open>pause\<close>, after \<open>pause\<close> has returned and before \<open>resume\<close>, and
  in the joining loop of \<open>stop\<close>. The two stores at the head of \<open>stop\<close> are one step, and so is the
  creation of the threads by \<open>start\<close>.
\<close>

datatype ctl = Idle | Storing MiningJob | Clearing | Waiting | Held | Joining

record ('e, 'h) system =
  pool :: MinerPool
  workers :: "'h Worker list"
  ctl :: ctl
  engine_st :: 'e
  found :: "share list"
  tried :: nat

definition system_init :: "u32 \<Rightarrow> bool \<Rightarrow> 'e \<Rightarrow> ('e, 'h) system" where
  "system_init n low e = \<lparr>pool = MinerPool_init n low, workers = [], ctl = Idle, engine_st = e, found = [], tried = 0\<rparr>"

text \<open>
  One step of the calling thread. \<open>Rekey\<close> is the work of the owner of the engine while the pool is
  held or does not run; it is not a method of the pool. \<open>Abandon\<close> is the owner leaving by an exception
  while it holds the pool: it goes on without calling \<open>resume\<close>. A step that is not possible in the state is
  \<open>None\<close>.
\<close>

datatype 'k cmd =
    Start_pool | Stop_begin | Stop_join | Set_begin MiningJob | Set_end | Clear_begin | Clear_end
  | Pause_begin | Pause_end | Resume | Rebuild | Rekey 'k | Abandon

definition start :: "('e, 'h) system \<Rightarrow> ('e, 'h) system" where
  "start s =
     (if running (pool s) then s
      else s\<lparr>pool := (pool s)\<lparr>running := True\<rparr>,
             workers := replicate (unat (threads (pool s))) Worker_init\<rparr>)"

definition stop_begin :: "('e, 'h) system \<Rightarrow> ('e, 'h) system" where
  "stop_begin s =
     (if \<not> running (pool s) then s
      else s\<lparr>pool := (pool s)\<lparr>running := False, paused := False\<rparr>, ctl := Joining\<rparr>)"

definition stop_join :: "('e, 'h) system \<Rightarrow> ('e, 'h) system" where
  "stop_join s = s\<lparr>workers := [], ctl := Idle\<rparr>"

fun command :: "('k, 'e, 'h) kernel \<Rightarrow> 'k cmd \<Rightarrow> ('e, 'h) system \<Rightarrow> ('e, 'h) system option" where
  "command kn Start_pool s = (if ctl s = Idle then Some (start s) else None)"
| "command kn Stop_begin s = (if ctl s = Idle then Some (stop_begin s) else None)"
| "command kn Stop_join s =
     (if ctl s = Joining \<and> (\<forall>v \<in> set (workers s). pc v = Exited) then Some (stop_join s) else None)"
| "command kn (Set_begin job) s =
     (if ctl s = Idle then
        let (copy, p) = set_work_bump job (pool s) in Some (s\<lparr>pool := p, ctl := Storing copy\<rparr>)
      else None)"
| "command kn Set_end s =
     (case ctl s of Storing copy \<Rightarrow> Some (s\<lparr>pool := set_work_store copy (pool s), ctl := Idle\<rparr>) | _ \<Rightarrow> None)"
| "command kn Clear_begin s = (if ctl s = Idle then Some (s\<lparr>pool := clear_work_bump (pool s), ctl := Clearing\<rparr>) else None)"
| "command kn Clear_end s =
     (if ctl s = Clearing then Some (s\<lparr>pool := clear_work_store (pool s), ctl := Idle\<rparr>) else None)"
| "command kn Pause_begin s =
     (if ctl s = Idle then
        Some (s\<lparr>pool := pause_set (pool s), ctl := (if running (pool s) then Waiting else Held)\<rparr>)
      else None)"
| "command kn Pause_end s =
     (if ctl s = Waiting \<and> in_flight (pool s) = 0 then Some (s\<lparr>ctl := Held\<rparr>) else None)"
| "command kn Resume s = (if ctl s = Held then Some (s\<lparr>pool := resume (pool s), ctl := Idle\<rparr>) else None)"
| "command kn Rebuild s = (if ctl s \<in> {Idle, Held} then Some (s\<lparr>pool := rebuild_hashers (pool s)\<rparr>) else None)"
| "command kn (Rekey k) s =
     (if ctl s = Held \<or> ctl s = Idle \<and> \<not> running (pool s) then
        (case kn_rekey kn k (engine_st s) of Inr e \<Rightarrow> Some (s\<lparr>engine_st := e\<rparr>) | Inl f \<Rightarrow> None)
      else None)"
| "command kn Abandon s = (if ctl s = Held then Some (s\<lparr>ctl := Idle\<rparr>) else None)"

definition work_of :: "('k, 'e, 'h) kernel \<Rightarrow> nat \<Rightarrow> ('e, 'h) system \<Rightarrow> ('e, 'h) system res" where
  "work_of kn i s =
     bindR (worker_step kn (of_nat i) (engine_st s, pool s, workers s ! i)) (\<lambda>(e, p, v, shares, nonces).
       Inr (s\<lparr>pool := p, workers := (workers s)[i := v], engine_st := e, found := found s @ shares,
              tried := tried s + length nonces\<rparr>))"

text \<open>
  An action of a run is a command of the calling thread or a step of a worker; \<open>Inr None\<close> is an
  action that is not possible in the state, and an exception of a worker thread ends the program.
\<close>

datatype 'k act = Cmd "'k cmd" | Work nat

fun perform ::
    "('k, 'e, 'h) kernel \<Rightarrow> 'k act \<Rightarrow> ('e, 'h) system \<Rightarrow> ('e, 'h) system option res" where
  "perform kn (Cmd c) s = Inr (command kn c s)"
| "perform kn (Work i) s =
     (if i < length (workers s) then bindR (work_of kn i s) (\<lambda>s'. Inr (Some s')) else Inr None)"

text \<open>The states that runs over allowed actions reach, and a run of a given schedule.\<close>

inductive reachable ::
    "('k, 'e, 'h) kernel \<Rightarrow> ('k act \<Rightarrow> bool) \<Rightarrow> ('e, 'h) system \<Rightarrow> ('e, 'h) system \<Rightarrow> bool"
  for kn ok s0 where
  init: "reachable kn ok s0 s0"
| step: "reachable kn ok s0 s \<Longrightarrow> ok a \<Longrightarrow> perform kn a s = Inr (Some s') \<Longrightarrow> reachable kn ok s0 s'"

fun run ::
    "('k, 'e, 'h) kernel \<Rightarrow> 'k act list \<Rightarrow> ('e, 'h) system \<Rightarrow> ('e, 'h) system option" where
  "run kn [] s = Some s"
| "run kn (a # as) s =
     (case perform kn a s of Inr (Some s') \<Rightarrow> run kn as s' | _ \<Rightarrow> None)"

section \<open>Chunks\<close>

text \<open>The blob with a nonce in place, and what a scan of given nonces is to report.\<close>

definition with_nonce :: "MiningJob \<Rightarrow> bytes \<Rightarrow> u32 \<Rightarrow> bytes" where
  "with_nonce job bs n =
     take (unat (nonce_offset job)) bs @ le32 n @ drop (unat (nonce_offset job) + 4) bs"

definition room :: "MiningJob \<Rightarrow> bytes \<Rightarrow> bool" where
  "room job bs = (unat (nonce_offset job) + 4 \<le> length bs)"

definition shares_of :: "(bytes \<Rightarrow> bytes) \<Rightarrow> MiningJob \<Rightarrow> bytes \<Rightarrow> u32 list \<Rightarrow> share list" where
  "shares_of hash job bs ns =
     map (\<lambda>n. (job, n, hash (with_nonce job bs n)))
       (List.filter (\<lambda>n. meets_target (hash (with_nonce job bs n)) (target job)) ns)"

lemma put_nonce_with: "room job bs \<Longrightarrow> put_nonce bs (nonce_offset job) n = Inr (with_nonce job bs n)"
proof -
  assume r: "room job bs"
  let ?o = "unat (nonce_offset job)"
  have "drop ?o bs = [bs ! ?o, bs ! (?o + 1), bs ! (?o + 2), bs ! (?o + 3)] @ drop (?o + 4) bs"
    using r by (simp add: room_def Cons_nth_drop_Suc numeral_eq_Suc)
  then have b: "bs = take ?o bs @ [bs ! ?o, bs ! (?o + 1), bs ! (?o + 2), bs ! (?o + 3)] @ drop (?o + 4) bs"
    by (metis append_take_drop_id)
  have l: "length (take ?o bs) = ?o" using r by (simp add: room_def)
  have "bs[?o := b0, ?o + 1 := b1, ?o + 2 := b2, ?o + 3 := b3]
      = take ?o bs @ [b0, b1, b2, b3] @ drop (?o + 4) bs" for b0 b1 b2 b3
    by (subst (1) b) (use l in \<open>simp add: list_update_append\<close>)
  then show ?thesis
    using r by (simp add: put_nonce_def room_def with_nonce_def le32_def)
qed

lemma with_nonce_again [simp]: "room job bs \<Longrightarrow> with_nonce job (with_nonce job bs n) m = with_nonce job bs m"
  by (simp add: with_nonce_def room_def)

lemma room_with_nonce [simp]: "room job bs \<Longrightarrow> room job (with_nonce job bs n)"
  by (simp add: with_nonce_def room_def)

lemma shares_of_with_nonce [simp]:
  "room job bs \<Longrightarrow> shares_of hash job (with_nonce job bs n) ns = shares_of hash job bs ns"
  by (simp add: shares_of_def)

lemma shares_of_append: "shares_of hash job bs (ns @ ms) = shares_of hash job bs ns @ shares_of hash job bs ms"
  by (simp add: shares_of_def)

lemma word_plus_wraps: "((n :: 'a::len word) + t < t) = (2 ^ LENGTH('a) \<le> unat n + unat t)"
proof -
  let ?M = "2 ^ LENGTH('a) :: nat"
  have b: "unat n < ?M" "unat t < ?M" by (rule unsigned_less)+
  have u: "unat (n + t) = (unat n + unat t) mod ?M" by (simp add: unat_word_ariths)
  show ?thesis
  proof (cases "unat n + unat t < ?M")
    case False
    then have "unat n + unat t - ?M < ?M" using b by linarith
    with False have "unat (n + t) = unat n + unat t - ?M" using u by (simp add: le_mod_geq)
    then show ?thesis using False b unfolding word_less_nat_alt by linarith
  qed (use u in \<open>simp add: word_less_nat_alt\<close>)
qed

text \<open>
  A chunk of at most \<open>n\<close> nonces tries an arithmetic progression and stops early only at the end of
  the 32-bit range.
\<close>

lemma chunk_loop_spec:
  "room job bs \<Longrightarrow>
   \<exists>bs' ns. chunk_loop n hash t job bs nn d =
       Inr (bs', nn + of_nat (length ns) * t, d + of_nat (length ns), shares_of hash job bs ns, ns)
     \<and> (bs' = bs \<or> (\<exists>m. bs' = with_nonce job bs m)) \<and> length ns \<le> n \<and> (n \<noteq> 0 \<longrightarrow> ns \<noteq> [])
     \<and> ns = map (\<lambda>k. nn + of_nat k * t) [0..<length ns]
     \<and> (\<forall>k < length ns. Suc k < n \<and> unat (ns ! k) + unat t < 2 ^ 32 \<longrightarrow> Suc k < length ns)"
proof (induction n arbitrary: bs nn d)
  case 0
  then show ?case by (auto simp: shares_of_def)
next
  case (Suc n)
  note r = Suc.prems
  let ?b = "with_nonce job bs nn"
  have sh: "(if meets_target (hash ?b) (target job) then [(job, nn, hash ?b)] else []) = shares_of hash job bs [nn]"
    by (simp add: shares_of_def)
  show ?case
  proof (cases "nn + t < t")
    case True
    have "chunk_loop (Suc n) hash t job bs nn d = Inr (?b, nn + t, d + 1, shares_of hash job bs [nn], [nn])"
      using r True by (simp add: put_nonce_with Let_def sh)
    then show ?thesis
      using True word_plus_wraps [of nn t]
      by (intro exI [of _ ?b] exI [of _ "[nn]"]) auto
  next
    case False
    obtain bs' ns where ih: "chunk_loop n hash t job ?b (nn + t) (d + 1) =
       Inr (bs', nn + t + of_nat (length ns) * t, d + 1 + of_nat (length ns), shares_of hash job ?b ns, ns)"
      "bs' = ?b \<or> (\<exists>m. bs' = with_nonce job ?b m)" "length ns \<le> n" "n \<noteq> 0 \<longrightarrow> ns \<noteq> []"
      "ns = map (\<lambda>k. nn + t + of_nat k * t) [0..<length ns]"
      "\<forall>k < length ns. Suc k < n \<and> unat (ns ! k) + unat t < 2 ^ 32 \<longrightarrow> Suc k < length ns"
      using Suc.IH [OF room_with_nonce [OF r], of nn "nn + t" "d + 1"] by blast
    have eq: "chunk_loop (Suc n) hash t job bs nn d =
       Inr (bs', nn + of_nat (length (nn # ns)) * t, d + of_nat (length (nn # ns)), shares_of hash job bs (nn # ns), nn # ns)"
      using r False ih(1) shares_of_append [of hash job bs "[nn]" ns]
      by (simp add: put_nonce_with Let_def sh algebra_simps)
    have "nn # ns = map (\<lambda>k. nn + of_nat k * t) (0 # map Suc [0..<length ns])"
      by (subst ih(5)) (simp add: algebra_simps)
    also have "0 # map Suc [0..<length ns] = [0..<length (nn # ns)]"
      by (simp only: map_Suc_upt length_Cons upt_conv_Cons [of 0 "Suc (length ns)"] zero_less_Suc)
    finally have prog: "nn # ns = map (\<lambda>k. nn + of_nat k * t) [0..<length (nn # ns)]" .
    have full: "Suc k < length (nn # ns)"
      if k: "k < length (nn # ns)" "Suc k < Suc n" "unat ((nn # ns) ! k) + unat t < 2 ^ 32" for k
    proof (cases k)
      case 0
      then show ?thesis using k ih(4) by auto
    next
      case (Suc k')
      then show ?thesis using k ih(6) by auto
    qed
    show ?thesis
      using eq ih(2,3) prog full r
      by (intro exI [of _ bs'] exI [of _ "nn # ns"]) auto
  qed
qed

lemma chunk_spec:
  assumes "room job bs"
  obtains bs' ns where
    "chunk hash t job bs nn =
       Inr (bs', nn + of_nat (length ns) * t, of_nat (length ns), shares_of hash job bs ns, ns)"
    "bs' = bs \<or> (\<exists>m. bs' = with_nonce job bs m)" "0 < length ns" "length ns \<le> 16"
    "ns = map (\<lambda>k. nn + of_nat k * t) [0..<length ns]"
    "\<And>k. k < length ns \<Longrightarrow> Suc k < 16 \<Longrightarrow> unat (ns ! k) + unat t < 2 ^ 32 \<Longrightarrow> Suc k < length ns"
proof -
  have k: "unat kChunk = 16" by (simp add: kChunk_def)
  show thesis
    using chunk_loop_spec [OF assms, of 16 hash t nn 0] that
    unfolding chunk_def k by auto
qed

text \<open>Successive chunks of one job.\<close>

fun chunks ::
    "nat \<Rightarrow> (bytes \<Rightarrow> bytes) \<Rightarrow> u32 \<Rightarrow> MiningJob \<Rightarrow> bytes \<Rightarrow> u32 \<Rightarrow> (bytes \<times> u32 \<times> share list \<times> u32 list) res" where
  "chunks 0 hash t job bs nn = Inr (bs, nn, [], [])"
| "chunks (Suc m) hash t job bs nn =
     bindR (chunks m hash t job bs nn) (\<lambda>(bs, nn, sh, ns).
     bindR (chunk hash t job bs nn) (\<lambda>(bs, nn, d, sh', ns'). Inr (bs, nn, sh @ sh', ns @ ns')))"

text \<open>The number of nonces of worker \<open>i\<close> of \<open>t\<close> below the end of the range.\<close>

definition stride_count :: "nat \<Rightarrow> nat \<Rightarrow> nat" where
  "stride_count t i = (2 ^ 32 - 1 - i) div t + 1"

lemma stride_in_range:
  assumes "0 < t" "i < t" "t \<le> 2 ^ 32"
  shows "(k < stride_count t i) = (i + k * t < 2 ^ 32)"
proof -
  have "(k < stride_count t i) = (k \<le> (2 ^ 32 - 1 - i) div t)" by (auto simp: stride_count_def)
  also have "\<dots> = (k * t \<le> 2 ^ 32 - 1 - i)" using assms by (simp add: less_eq_div_iff_mult_less_eq)
  also have "\<dots> = (i + k * t < 2 ^ 32)" using assms by linarith
  finally show ?thesis .
qed

lemma chunks_spec:
  fixes t :: u32
  assumes "room job bs" "i < unat t"
  shows "\<exists>bs' nn' ns. chunks m hash t job bs (of_nat i) = Inr (bs', nn', shares_of hash job bs ns, ns)
     \<and> (bs' = bs \<or> (\<exists>m. bs' = with_nonce job bs m))
     \<and> (16 * m < stride_count (unat t) i \<longrightarrow> nn' = of_nat (i + 16 * m * unat t) \<and> length ns = 16 * m)
     \<and> take (min (16 * m) (stride_count (unat t) i)) ns
         = map (\<lambda>k. of_nat (i + k * unat t)) [0..<min (16 * m) (stride_count (unat t) i)]"
proof (induction m)
  case 0
  then show ?case by (auto simp: shares_of_def)
next
  case (Suc m)
  let ?N = "stride_count (unat t) i"
  have t: "0 < unat t" "unat t \<le> 2 ^ 32"
    using assms(2) unsigned_less [of t, where ?'a = nat] by auto
  note range = stride_in_range [OF t(1) assms(2) t(2)]
  obtain bs1 n1 ns1 where ih: "chunks m hash t job bs (of_nat i) = Inr (bs1, n1, shares_of hash job bs ns1, ns1)"
     "bs1 = bs \<or> (\<exists>m. bs1 = with_nonce job bs m)"
     "16 * m < ?N \<longrightarrow> n1 = of_nat (i + 16 * m * unat t) \<and> length ns1 = 16 * m"
     "take (min (16 * m) ?N) ns1 = map (\<lambda>k. of_nat (i + k * unat t)) [0..<min (16 * m) ?N]"
    using Suc.IH by blast
  have r1: "room job bs1" using ih(2) assms(1) by auto
  obtain bs2 ns2 where c: "chunk (hash :: bytes \<Rightarrow> bytes) t job bs1 n1 =
       Inr (bs2, n1 + of_nat (length ns2) * t, of_nat (length ns2), shares_of hash job bs1 ns2, ns2)"
    "bs2 = bs1 \<or> (\<exists>m. bs2 = with_nonce job bs1 m)" "0 < length ns2" "length ns2 \<le> 16"
    "ns2 = map (\<lambda>k. n1 + of_nat k * t) [0..<length ns2]"
    "\<And>k. k < length ns2 \<Longrightarrow> Suc k < 16 \<Longrightarrow> unat (ns2 ! k) + unat t < 2 ^ 32 \<Longrightarrow> Suc k < length ns2"
    using chunk_spec [OF r1, of hash t n1] by metis
  have sh: "shares_of hash job bs1 ns2 = shares_of hash job bs ns2" using ih(2) assms(1) by auto
  have run: "chunks (Suc m) hash t job bs (of_nat i) =
      Inr (bs2, n1 + of_nat (length ns2) * t, shares_of hash job bs (ns1 @ ns2), ns1 @ ns2)"
    using ih(1) c(1) sh by (simp add: shares_of_append)
  have b2: "bs2 = bs \<or> (\<exists>m. bs2 = with_nonce job bs m)" using c(2) ih(2) assms(1) by auto
  show ?case
  proof (cases "16 * m < ?N")
    case False
    then have "take ?N (ns1 @ ns2) = take ?N ns1"
      using ih(4) by (metis (no_types, lifting) append_Nil2 diff_is_0_eq length_map length_take length_upt
          min.absorb2 min.cobounded2 minus_nat.diff_0 nat_le_linear not_less take0 take_append take_all_iff)
    then show ?thesis using run b2 False ih(4) by auto
  next
    case True
    with ih have n1: "n1 = of_nat (i + 16 * m * unat t)" and l1: "length ns1 = 16 * m" by auto
    have at: "ns2 ! k = of_nat (i + (16 * m + k) * unat t)" if "k < length ns2" for k
    proof -
      have "ns2 ! k = n1 + of_nat k * t" using that by (subst c(5)) simp
      then show ?thesis by (simp add: n1 algebra_simps)
    qed
    have all: "16 * m + k < ?N \<Longrightarrow> k < 16 \<Longrightarrow> k < length ns2" for k
    proof (induction k)
      case 0
      then show ?case using c(3) by simp
    next
      case (Suc k)
      then have k: "k < length ns2" by simp
      have "i + (16 * m + Suc k) * unat t < 2 ^ 32" using range Suc.prems(1) by simp
      moreover from this have "unat (ns2 ! k) = i + (16 * m + k) * unat t"
        by (simp only: at [OF k] unat_of_nat) simp
      ultimately have "unat (ns2 ! k) + unat t < 2 ^ 32" by simp
      with c(6) [OF k] Suc.prems(2) show ?case by simp
    qed
    define e where "e = min (16 * Suc m) ?N"
    have b: "16 * m < e" "e \<le> ?N" "e \<le> 16 * m + 16" using True by (simp_all add: e_def)
    have "e - 16 * m - 1 < length ns2" by (rule all) (use b in auto)
    then have e: "16 * m \<le> e" "e - 16 * m \<le> length ns2" using b by auto
    have 1: "ns1 = map (\<lambda>k. of_nat (i + k * unat t)) [0..<16 * m]"
      using ih(4) l1 True by simp
    have 2: "take (e - 16 * m) ns2 = map (\<lambda>k. of_nat (i + k * unat t)) [16 * m..<e]"
      using e(2) at by (intro nth_equalityI) auto
    have 3: "[0..<e] = [0..<16 * m] @ [16 * m..<e]"
      using e(1) by (metis le_add_diff_inverse upt_add_eq_append zero_le)
    have "take e (ns1 @ ns2) = ns1 @ take (e - 16 * m) ns2" using l1 e(1) by simp
    then have tk: "take e (ns1 @ ns2) = map (\<lambda>k. of_nat (i + k * unat t)) [0..<e]"
      unfolding 2 3 map_append using 1 by simp
    have "length ns2 = 16" if "16 * Suc m < ?N" using all [of 15] that c(4) by simp
    then show ?thesis
      using run b2 tk n1 l1 by (auto simp: algebra_simps e_def)
  qed
qed

section \<open>Properties\<close>

text \<open>
  C9: A chunk reports exactly its winners. On a blob with room for the nonce, a chunk tries between
  1 and 16 nonces in steps of the number of threads and stops early only when the next nonce would
  pass the 32-bit range; the shares it reports are exactly the tried nonces for which the digest of
  the blob with that nonce in place meets the target, in order, with those digests; the count it
  adds to the hash counter is the number of digests computed.
\<close>

theorem chunk_reports_winners:
  assumes "room job bs"
  shows "\<exists>bs' ns. chunk hash t job bs nn =
       Inr (bs', nn + of_nat (length ns) * t, of_nat (length ns), shares_of hash job bs ns, ns)
     \<and> 0 < length ns \<and> length ns \<le> 16 \<and> ns = map (\<lambda>k. nn + of_nat k * t) [0..<length ns]
     \<and> (length ns < 16 \<longrightarrow> 2 ^ 32 \<le> unat (last ns) + unat t)
     \<and> (bs' = bs \<or> (\<exists>m. bs' = with_nonce job bs m))"
proof -
  obtain bs' ns where c: "chunk hash t job bs nn =
       Inr (bs', nn + of_nat (length ns) * t, of_nat (length ns), shares_of hash job bs ns, ns)"
    "bs' = bs \<or> (\<exists>m. bs' = with_nonce job bs m)" "0 < length ns" "length ns \<le> 16"
    "ns = map (\<lambda>k. nn + of_nat k * t) [0..<length ns]"
    "\<And>k. k < length ns \<Longrightarrow> Suc k < 16 \<Longrightarrow> unat (ns ! k) + unat t < 2 ^ 32 \<Longrightarrow> Suc k < length ns"
    using chunk_spec [OF assms, of hash t nn] by metis
  have "2 ^ 32 \<le> unat (last ns) + unat t" if "length ns < 16"
    using c(6) [of "length ns - 1"] that c(3) by (auto simp: last_conv_nth not_less [symmetric])
  with c(1-5) show ?thesis by blast
qed

theorem chunk_reports_winners_witness:
  "room (MiningJob_init\<lparr>nonce_offset := 1\<rparr>) (replicate 6 0) \<and>
   (\<exists>bs' ns. chunk (\<lambda>b. replicate 32 0) 3 (MiningJob_init\<lparr>nonce_offset := 1\<rparr>) (replicate 6 0) 2 =
       Inr (bs', 2 + of_nat (length ns) * 3, of_nat (length ns),
         shares_of (\<lambda>b. replicate 32 0) (MiningJob_init\<lparr>nonce_offset := 1\<rparr>) (replicate 6 0) ns, ns) \<and> 0 < length ns)"
proof -
  have r: "room (MiningJob_init\<lparr>nonce_offset := 1\<rparr>) (replicate 6 0)" by (simp add: room_def)
  show ?thesis using chunk_reports_winners [OF r, of "\<lambda>b. replicate 32 0" 3 2] r by blast
qed

text \<open>
  C8: The nonce space is partitioned. Worker \<open>i\<close> of \<open>t\<close>, starting a job at nonce \<open>i\<close>, has after
  \<open>m\<close> chunks tried every nonce of its residue class below \<open>16 m t\<close>; until the class is used up it
  has tried no other nonce and none twice, so two workers never try the same nonce and together
  they try all \<open>2\<^sup>3\<^sup>2\<close>. What it reports are the winners among the nonces tried.
\<close>

theorem nonce_space_partition:
  fixes t :: u32
  assumes "room job bs" "i < unat t"
  shows "\<exists>bs' nn ns. chunks m hash t job bs (of_nat i) = Inr (bs', nn, shares_of hash job bs ns, ns)
     \<and> (\<forall>x. unat x mod unat t = i \<and> unat x div unat t < 16 * m \<longrightarrow> x \<in> set ns)
     \<and> (i + 16 * m * unat t < 2 ^ 32 \<longrightarrow> distinct ns \<and> (\<forall>x \<in> set ns. unat x mod unat t = i))"
proof -
  let ?N = "stride_count (unat t) i"
  let ?f = "\<lambda>k. of_nat (i + k * unat t) :: u32"
  have t: "0 < unat t" "unat t \<le> 2 ^ 32"
    using assms(2) unsigned_less [of t, where ?'a = nat] by auto
  note range = stride_in_range [OF t(1) assms(2) t(2)]
  have f: "unat (?f k) = i + k * unat t" if "k < ?N" for k
    using that range by (simp only: unat_of_nat) simp
  obtain bs' nn ns where c: "chunks m hash t job bs (of_nat i) = Inr (bs', nn, shares_of hash job bs ns, ns)"
     "16 * m < ?N \<longrightarrow> length ns = 16 * m" "take (min (16 * m) ?N) ns = map ?f [0..<min (16 * m) ?N]"
    using chunks_spec [OF assms, of m hash] by blast
  have cover: "x \<in> set ns" if "unat x mod unat t = i" "unat x div unat t < 16 * m" for x
  proof -
    let ?k = "unat x div unat t"
    have x: "unat x = i + ?k * unat t" using that(1) by (metis add.commute div_mod_decomp)
    then have k: "?k < ?N" using range unsigned_less [of x, where ?'a = nat] by simp
    have "x = ?f ?k" using f [OF k] x by (simp add: word_unat_eq_iff)
    then have "x \<in> set (take (min (16 * m) ?N) ns)" using c(3) k that(2) by auto
    then show ?thesis by (rule in_set_takeD)
  qed
  have "distinct ns \<and> (\<forall>x \<in> set ns. unat x mod unat t = i)" if "i + 16 * m * unat t < 2 ^ 32"
  proof -
    have "16 * m < ?N" using range that by simp
    then have ns: "ns = map ?f [0..<16 * m]" and lt: "\<And>k. k < 16 * m \<Longrightarrow> k < ?N" using c(2,3) by auto
    have "inj_on ?f {0..<16 * m}"
      by (rule inj_onI) (metis add_left_cancel atLeastLessThan_iff f lt mult_cancel2 t(1) less_irrefl)
    moreover have "unat (?f k) mod unat t = i" if "k < 16 * m" for k
      using f lt that assms(2) by simp
    ultimately show ?thesis unfolding ns by (auto simp: distinct_map)
  qed
  with c(1) cover show ?thesis by blast
qed

theorem nonce_space_partition_witness:
  "room (MiningJob_init\<lparr>nonce_offset := 0\<rparr>) (replicate 4 0) \<and> (1 :: nat) < unat (2 :: u32) \<and>
   (\<exists>bs' nn ns. chunks 2 (\<lambda>b. replicate 32 0) (2 :: u32) (MiningJob_init\<lparr>nonce_offset := 0\<rparr>) (replicate 4 0) (of_nat 1) =
      Inr (bs', nn, shares_of (\<lambda>b. replicate 32 0) (MiningJob_init\<lparr>nonce_offset := 0\<rparr>) (replicate 4 0) ns, ns)
      \<and> 33 \<in> set ns \<and> 34 \<notin> set ns)"
proof -
  have r: "room (MiningJob_init\<lparr>nonce_offset := 0\<rparr>) (replicate 4 0)" by (simp add: room_def)
  obtain bs' nn ns where ns:
    "chunks 2 (\<lambda>b. replicate 32 0) (2 :: u32) (MiningJob_init\<lparr>nonce_offset := 0\<rparr>) (replicate 4 0) (of_nat 1) =
      Inr (bs', nn, shares_of (\<lambda>b. replicate 32 0) (MiningJob_init\<lparr>nonce_offset := 0\<rparr>) (replicate 4 0) ns, ns)"
    "\<And>x. unat x mod unat (2 :: u32) = 1 \<and> unat x div unat (2 :: u32) < 16 * 2 \<Longrightarrow> x \<in> set ns"
    "\<forall>x \<in> set ns. unat x mod unat (2 :: u32) = 1"
    using nonce_space_partition [OF r, of 1 "2 :: u32" 2 "\<lambda>b. replicate 32 0"] by auto
  have "34 \<notin> set ns" using ns(3) by fastforce
  with r ns(1) ns(2) [of 33] show ?thesis by auto
qed

end
