(* ===== verification/Worker_Safety.thy ===== *)
theory Worker_Safety
  imports Worker
begin

text \<open>
  The interleavings of the thread pool: the counter of workers inside the hashing section is
  exact, no worker hashes while the pool is held for re-keying, every hash is counted once, and
  pausing and stopping end under every schedule that lets each worker run. Two executions show
  what the protocol does not exclude: a worker that keeps mining a replaced job, and a chunk
  hashed with a hasher made before the re-keying.
\<close>

section \<open>Single steps\<close>

definition critical :: "pc \<Rightarrow> bool" where
  "critical l = (l \<in> {Recheck, Back_out, Hash_chunk, Leave})"

definition hashing :: "pc \<Rightarrow> bool" where
  "hashing l = (l \<in> {Hash_chunk, Leave})"

definition pending :: "'h Worker \<Rightarrow> u64" where
  "pending v = (if pc v \<in> {Leave, Add_hashes} then ucast (hashed v) else 0)"

text \<open>A job whose nonce field fits, and a worker that can hash what it is about to hash.\<close>

definition fitting :: "MiningJob \<Rightarrow> bool" where
  "fitting j = (unat (nonce_offset j) + 4 < 2 ^ 32)"

definition wf_worker :: "'h Worker \<Rightarrow> bool" where
  "wf_worker v = ((pc v \<notin> {Start, Exited} \<longrightarrow> hasher v \<noteq> None) \<and>
     (\<forall>j. local_job v = Some j \<longrightarrow> fitting j) \<and>
     (pc v \<in> {Enter, Recheck, Hash_chunk} \<longrightarrow> (\<exists>j. local_job v = Some j \<and> room j (wblob v))))"

lemma room_of_guard: "\<not> too_short v \<Longrightarrow> \<forall>j. local_job v = Some j \<longrightarrow> fitting j \<Longrightarrow> \<exists>j. local_job v = Some j \<and> room j (wblob v)"
proof -
  assume a: "\<not> too_short v" "\<forall>j. local_job v = Some j \<longrightarrow> fitting j"
  then obtain j where j: "local_job v = Some j" by (auto simp: too_short_def split: option.splits)
  with a(2) have "unat (nonce_offset j + 4) = unat (nonce_offset j) + 4"
    by (simp add: fitting_def unat_word_ariths)
  with a(1) j show ?thesis by (auto simp: too_short_def room_def)
qed

text \<open>
  Every step of a well-formed worker is defined, unless it is to make a hasher and cannot, and what it
  does to the shared counters.
\<close>

definition makes :: "pc \<Rightarrow> bool" where
  "makes l = (l \<in> {Start, Make_hasher})"

lemma worker_step_throws:
  "makes (pc v) \<Longrightarrow> kn_make kn e = Inl f \<Longrightarrow> worker_step kn i (e, p, v) = Inl f"
  by (auto simp: makes_def worker_step_def renew_def)

lemma worker_step_result:
  assumes "wf_worker v" "\<And>j. work p = Some j \<Longrightarrow> fitting j" "makes (pc v) \<Longrightarrow> \<exists>r. kn_make kn e = Inr r"
  shows "\<exists>e' p' v' sh ns. worker_step kn i (e, p, v) = Inr (e', p', v', sh, ns) \<and> wf_worker v'
     \<and> in_flight p' = in_flight p + (of_bool (critical (pc v')) - of_bool (critical (pc v)))
     \<and> hashes p' + pending v' = hashes p + pending v + of_nat (length ns)
     \<and> (paused p \<longrightarrow> hashing (pc v') \<longrightarrow> hashing (pc v))
     \<and> p' = p\<lparr>in_flight := in_flight p', hashes := hashes p'\<rparr>"
proof (cases "pc v = Hash_chunk")
  case True
  then obtain h j where hj: "hasher v = Some h" "local_job v = Some j" "room j (wblob v)"
    using assms(1) by (auto simp: wf_worker_def)
  obtain bs' ns where c: "chunk (kn_hash kn e h) (threads p) j (wblob v) (nonce v) =
       Inr (bs', nonce v + of_nat (length ns) * threads p, of_nat (length ns), shares_of (kn_hash kn e h) j (wblob v) ns, ns)"
    "0 < length ns" "length ns \<le> 16"
    using chunk_spec [OF hj(3), of "kn_hash kn e h" "threads p" "nonce v"] by metis
  have "length ns < 2 ^ 32" using c(3) by simp
  then have "ucast (of_nat (length ns) :: u32) = (of_nat (length ns) :: u64)"
    by (simp only: unsigned_of_nat) (simp add: take_bit_nat_eq_self)
  then show ?thesis
    using True hj c assms(1)
    by (simp add: worker_step_def critical_def hashing_def pending_def wf_worker_def)
next
  case no_hash: False
  note defs = worker_step_def critical_def hashing_def pending_def wf_worker_def
  consider "makes (pc v)" | "pc v = Copy_work" | "\<not> makes (pc v)" "pc v \<noteq> Copy_work" by blast
  then show ?thesis
  proof cases
    case 1
    then obtain h e1 where "kn_make kn e = Inr (h, e1)" using assms(3) by auto
    with 1 show ?thesis using assms(1) by (cases "pc v") (simp_all add: defs makes_def renew_def)
  next
    case 2
    then show ?thesis using assms by (cases "work p") (simp_all add: defs)
  next
    case 3
    with no_hash show ?thesis
      using assms(1,2) room_of_guard [of v] by (cases "pc v") (auto simp: defs makes_def)
  qed
qed

lemma sum_list_map_update:
  fixes f :: "'a \<Rightarrow> 'b::ab_group_add"
  shows "i < length xs \<Longrightarrow> sum_list (map f (xs[i := v])) = sum_list (map f xs) + (f v - f (xs ! i))"
proof (induction xs arbitrary: i)
  case (Cons x xs)
  then show ?case by (cases i) auto
qed simp

section \<open>The invariant\<close>

definition flights :: "'h Worker list \<Rightarrow> u32" where
  "flights vs = sum_list (map (\<lambda>v. of_bool (critical (pc v))) vs)"

definition fitting_ctl :: "ctl \<Rightarrow> bool" where
  "fitting_ctl c = (case c of Storing j \<Rightarrow> fitting j | _ \<Rightarrow> True)"

definition pool_inv :: "('e, 'h) system \<Rightarrow> bool" where
  "pool_inv s =
     (in_flight (pool s) = flights (workers s) \<and>
      hashes (pool s) + sum_list (map pending (workers s)) = of_nat (tried s) \<and>
      length (workers s) \<le> unat (threads (pool s)) \<and>
      (\<not> running (pool s) \<and> ctl s \<noteq> Joining \<longrightarrow> workers s = []) \<and>
      (running (pool s) \<longrightarrow> ctl s \<noteq> Joining) \<and>
      (ctl s \<in> {Waiting, Held} \<longrightarrow> paused (pool s)) \<and>
      (ctl s = Held \<longrightarrow> (\<forall>v \<in> set (workers s). \<not> hashing (pc v))) \<and>
      (\<forall>v \<in> set (workers s). wf_worker v) \<and>
      (\<forall>j. work (pool s) = Some j \<longrightarrow> fitting j) \<and> fitting_ctl (ctl s))"

lemma flights_count: "flights vs = of_nat (length (List.filter (\<lambda>v. critical (pc v)) vs))"
  by (induction vs) (auto simp: flights_def)

lemma flights_zero:
  assumes "flights vs = 0" "length vs < 2 ^ 32" "v \<in> set vs"
  shows "\<not> critical (pc v)"
proof -
  let ?n = "length (List.filter (\<lambda>v. critical (pc v)) vs)"
  have "?n < 2 ^ 32" using assms(2) length_filter_le [of _ vs] by (rule le_less_trans [rotated])
  moreover have "unat (of_nat ?n :: u32) = 0" using assms(1) by (simp add: flights_count)
  ultimately have "?n = 0" by (simp only: unat_of_nat) simp
  then show ?thesis using assms(3) by (auto simp: filter_empty_conv)
qed

lemma hashing_critical: "hashing l \<Longrightarrow> critical l"
  by (auto simp: hashing_def critical_def)

lemma worker_inv:
  assumes inv: "pool_inv s" and i: "i < length (workers s)"
    and mk: "makes (pc (workers s ! i)) \<Longrightarrow> \<exists>r. kn_make kn (engine_st s) = Inr r"
  shows "\<exists>s'. work_of kn i s = Inr s' \<and> pool_inv s'"
proof -
  let ?v = "workers s ! i"
  have v: "?v \<in> set (workers s)" using i by simp
  obtain e' p' v' sh ns where st: "worker_step kn (of_nat i) (engine_st s, pool s, ?v) = Inr (e', p', v', sh, ns)"
    "wf_worker v'"
    "in_flight p' = in_flight (pool s) + (of_bool (critical (pc v')) - of_bool (critical (pc ?v)))"
    "hashes p' + pending v' = hashes (pool s) + pending ?v + of_nat (length ns)"
    "paused (pool s) \<longrightarrow> hashing (pc v') \<longrightarrow> hashing (pc ?v)"
    "p' = (pool s)\<lparr>in_flight := in_flight p', hashes := hashes p'\<rparr>"
    using worker_step_result [of ?v "pool s" kn "engine_st s" "of_nat i"] inv v mk
    by (auto simp: pool_inv_def)
  let ?s = "s\<lparr>pool := p', workers := (workers s)[i := v'], engine_st := e', found := found s @ sh,
      tried := tried s + length ns\<rparr>"
  have w: "work_of kn i s = Inr ?s" using st(1) by (simp add: work_of_def)
  have same: "threads p' = threads (pool s)" "running p' = running (pool s)" "paused p' = paused (pool s)"
    "work p' = work (pool s)"
    by (subst st(6), simp)+
  have fl: "flights ((workers s)[i := v']) = in_flight p'"
    using inv st(3) i by (simp add: pool_inv_def flights_def sum_list_map_update)
  have hs: "hashes p' + sum_list (map pending ((workers s)[i := v'])) = of_nat (tried s + length ns)"
  proof -
    have "hashes p' + sum_list (map pending ((workers s)[i := v']))
        = (hashes p' + pending v') - pending ?v + sum_list (map pending (workers s))"
      using i by (simp add: sum_list_map_update)
    also have "\<dots> = (hashes (pool s) + sum_list (map pending (workers s))) + of_nat (length ns)"
      by (simp add: st(4))
    finally show ?thesis using inv by (simp add: pool_inv_def)
  qed
  have all: "P v' \<Longrightarrow> (\<forall>u \<in> set (workers s). P u) \<Longrightarrow> u \<in> set ((workers s)[i := v']) \<Longrightarrow> P u" for P u
    using set_update_subset_insert [of "workers s" i v'] by auto
  have "pool_inv ?s"
    using inv st(2,5) fl hs same v all [of wf_worker] all [of "\<lambda>u. \<not> hashing (pc u)"]
    by (auto simp: pool_inv_def)
  with w show ?thesis by blast
qed

text \<open>The jobs a command hands over have a nonce field that fits.\<close>

definition fitting_cmd :: "'k cmd \<Rightarrow> bool" where
  "fitting_cmd c = (case c of Set_begin j \<Rightarrow> fitting j | _ \<Rightarrow> True)"

lemma command_inv:
  fixes s :: "('e, 'h) system"
  assumes "pool_inv s" "fitting_cmd c" "command kn c s = Some s'"
  shows "pool_inv s'"
proof (cases c)
  case Start_pool
  have u: "wf_worker (Worker_init :: 'h Worker)" "critical (pc (Worker_init :: 'h Worker)) = False"
    "pending (Worker_init :: 'h Worker) = 0" "hashing (pc (Worker_init :: 'h Worker)) = False"
    by (simp_all add: Worker_init_def wf_worker_def critical_def pending_def hashing_def)
  show ?thesis
    using assms Start_pool u
    by (auto simp: pool_inv_def start_def flights_def sum_list_replicate split: if_splits)
next
  case Stop_join
  have "pending v = 0 \<and> \<not> critical (pc v)" if "v \<in> set (workers s)" for v
    using assms Stop_join that by (auto simp: pending_def critical_def split: if_splits)
  then have "sum_list (map pending (workers s)) = 0" "flights (workers s) = 0"
    by (simp_all add: flights_def cong: map_cong)
  then show ?thesis
    using assms Stop_join by (auto simp: pool_inv_def stop_join_def flights_def fitting_ctl_def split: if_splits)
next
  case Pause_end
  have "flights (workers s) = 0" "length (workers s) < 2 ^ 32"
    using assms Pause_end unsigned_less [of "threads (pool s)", where ?'a = nat]
    by (auto simp: pool_inv_def split: if_splits)
  then have "\<forall>v \<in> set (workers s). \<not> hashing (pc v)"
    using flights_zero hashing_critical by blast
  then show ?thesis
    using assms Pause_end by (auto simp: pool_inv_def fitting_ctl_def split: if_splits)
next
  case (Set_begin j)
  then show ?thesis
    using assms by (auto simp: pool_inv_def set_work_bump_def fitting_ctl_def fitting_cmd_def fitting_def split: if_splits)
next
  case Set_end
  then show ?thesis
    using assms by (auto simp: pool_inv_def set_work_store_def fitting_ctl_def split: ctl.splits)
next
  case Stop_begin
  then show ?thesis
    using assms by (auto simp: pool_inv_def stop_begin_def fitting_ctl_def split: if_splits)
next
  case Pause_begin
  then show ?thesis
    using assms by (auto simp: pool_inv_def pause_set_def fitting_ctl_def split: if_splits)
next
  case Clear_begin
  then show ?thesis
    using assms by (auto simp: pool_inv_def clear_work_bump_def fitting_ctl_def split: if_splits)
next
  case Clear_end
  then show ?thesis
    using assms by (auto simp: pool_inv_def clear_work_store_def fitting_ctl_def split: if_splits)
next
  case Resume
  then have "s' = s\<lparr>pool := resume (pool s), ctl := Idle\<rparr>" "ctl s = Held"
    using assms(3) by (simp_all split: if_splits)
  then show ?thesis
    using assms(1) by (simp add: pool_inv_def resume_def fitting_ctl_def)
next
  case Rebuild
  then have "s' = s\<lparr>pool := rebuild_hashers (pool s)\<rparr>"
    using assms(3) by (simp split: if_splits)
  then show ?thesis
    using assms(1) by (simp add: pool_inv_def rebuild_hashers_def)
next
  case (Rekey k)
  then obtain e where "s' = s\<lparr>engine_st := e\<rparr>" using assms(3) by (auto split: if_splits sum.splits)
  then show ?thesis using assms(1) by (simp add: pool_inv_def)
next
  case Abandon
  then have "s' = s\<lparr>ctl := Idle\<rparr>" "ctl s = Held" using assms(3) by (simp_all split: if_splits)
  then show ?thesis using assms(1) by (simp add: pool_inv_def fitting_ctl_def)
qed

definition fitting_act :: "'k act \<Rightarrow> bool" where
  "fitting_act a = (case a of Cmd c \<Rightarrow> fitting_cmd c | Work i \<Rightarrow> True)"

lemma perform_inv:
  assumes "pool_inv s" "fitting_act a" "perform kn a s = Inr (Some s')"
  shows "pool_inv s'"
proof (cases a)
  case (Cmd c)
  then show ?thesis using assms command_inv [of s c kn s'] by (simp add: fitting_act_def)
next
  case (Work i)
  then have i: "i < length (workers s)" "work_of kn i s = Inr s'"
    using assms(3) by (auto simp: bindR_eq_Inr split: if_splits)
  then have "makes (pc (workers s ! i)) \<Longrightarrow> \<exists>r. kn_make kn (engine_st s) = Inr r"
    using worker_step_throws [of "workers s ! i" kn "engine_st s"]
    by (cases "kn_make kn (engine_st s)") (auto simp: work_of_def)
  then show ?thesis using worker_inv [OF assms(1) i(1), of kn] i(2) by auto
qed

lemma system_init_inv: "pool_inv (system_init n low k)"
  by (simp add: pool_inv_def system_init_def MinerPool_init_def flights_def fitting_ctl_def)

lemma reachable_inv: "reachable kn fitting_act (system_init n low k) s \<Longrightarrow> pool_inv s"
proof (induction rule: reachable.induct)
  case init
  then show ?case by (rule system_init_inv)
next
  case (step s a s')
  then show ?case using perform_inv by blast
qed

lemma run_reachable:
  "run kn as s = Some s' \<Longrightarrow> \<forall>a \<in> set as. ok a \<Longrightarrow> reachable kn ok s0 s \<Longrightarrow> reachable kn ok s0 s'"
  by (induction as arbitrary: s)
    (auto split: sum.splits option.splits intro: reachable.step)

section \<open>Winding down\<close>

text \<open>
  A condition on the pool under which every worker moves towards rest: the rank of its program
  point falls with each of its own steps until it is 0.
\<close>

text \<open>
  Engine states from which a hasher can always be made: making and destroying hashers stays among them.
\<close>

definition can_make :: "('k, 'e, 'h) kernel \<Rightarrow> ('e \<Rightarrow> bool) \<Rightarrow> bool" where
  "can_make kn ready =
     ((\<forall>e. ready e \<longrightarrow> (\<exists>h e'. kn_make kn e = Inr (h, e') \<and> ready e')) \<and> (\<forall>e h. ready e \<longrightarrow> ready (kn_drop kn h e)))"

lemma can_make_step:
  assumes "can_make kn ready" "ready e"
  shows "\<exists>r. kn_make kn e = Inr r" "worker_step kn i (e, p, v) = Inr (e', p', v', sh, ns) \<Longrightarrow> ready e'"
proof -
  show "\<exists>r. kn_make kn e = Inr r" using assms unfolding can_make_def by blast
  assume st: "worker_step kn i (e, p, v) = Inr (e', p', v', sh, ns)"
  have renew: "ready e1" if "renew kn old e = Inr (h, e1)" for old h e1
    using that assms by (cases old) (auto simp: renew_def bindR_eq_Inr can_make_def)
  show "ready e'"
    using st assms renew
    by (cases "pc v") (auto simp: worker_step_def bindR_eq_Inr can_make_def split: option.splits)
qed

locale winding_down =
  fixes kn :: "('k, 'e, 'h) kernel"
    and cond :: "MinerPool \<Rightarrow> bool" and rank :: "pc \<Rightarrow> nat"
  assumes step_down: "cond p \<Longrightarrow> worker_step kn i (e, p, v) = Inr (e', p', v', sh, ns) \<Longrightarrow>
      cond p' \<and> rank (pc v') \<le> rank (pc v) - 1"
begin

lemma run_down:
  "can_make kn ready \<Longrightarrow> ready (engine_st s) \<Longrightarrow> pool_inv s \<Longrightarrow> cond (pool s) \<Longrightarrow>
   \<forall>i \<in> set sched. i < length (workers s) \<Longrightarrow>
   \<exists>s'. run kn (map Work sched) s = Some s' \<and> pool_inv s' \<and> ctl s' = ctl s
     \<and> length (workers s') = length (workers s)
     \<and> (\<forall>i < length (workers s). rank (pc (workers s' ! i)) \<le> rank (pc (workers s ! i)) - count_list sched i)"
proof (induction sched arbitrary: s)
  case Nil
  then show ?case by simp
next
  case (Cons j sched)
  note can = can_make_step [OF Cons.prems(1,2)]
  have j: "j < length (workers s)" using Cons.prems(5) by simp
  obtain s1 where s1: "work_of kn j s = Inr s1" "pool_inv s1"
    using worker_inv [OF Cons.prems(3) j can(1)] by blast
  then obtain e' p' v' sh ns where
    st: "worker_step kn (of_nat j) (engine_st s, pool s, workers s ! j) = Inr (e', p', v', sh, ns)"
    and s1': "pool s1 = p'" "workers s1 = (workers s)[j := v']" "ctl s1 = ctl s" "engine_st s1 = e'"
    by (auto simp: work_of_def bindR_eq_Inr)
  note d = step_down [OF Cons.prems(4) st]
  obtain s' where ih: "run kn (map Work sched) s1 = Some s'" "pool_inv s'" "ctl s' = ctl s1"
     "length (workers s') = length (workers s1)"
     "\<forall>i < length (workers s1). rank (pc (workers s' ! i)) \<le> rank (pc (workers s1 ! i)) - count_list sched i"
    using Cons.IH [of s1] s1(2) s1' d can(2) [OF st] Cons.prems(1,5) by auto
  have "rank (pc (workers s' ! i)) \<le> rank (pc (workers s ! i)) - count_list (j # sched) i"
    if "i < length (workers s)" for i
    using ih(5) that d s1'(2) j by (cases "i = j") (fastforce simp: nth_list_update)+
  with ih(1-4) s1 s1' j show ?case by auto
qed

end

text \<open>Towards the head of the loop while the pool is paused, and out of it while it is stopped.\<close>

fun pause_rank :: "pc \<Rightarrow> nat" where
  "pause_rank Check_running = 0" | "pause_rank Check_paused = 0" | "pause_rank Exited = 0" | "pause_rank Drop_hasher = 0"
| "pause_rank Add_hashes = 1" | "pause_rank Back_out = 1" | "pause_rank Load_hasher_gen = 1"
| "pause_rank Leave = 2" | "pause_rank Recheck = 2" | "pause_rank Start = 2"
| "pause_rank Hash_chunk = 3" | "pause_rank Enter = 3" | "pause_rank Check_work = 4" | "pause_rank Copy_work = 5"
| "pause_rank Load_gen = 6" | "pause_rank Reload_hasher_gen = 7" | "pause_rank Make_hasher = 8"
| "pause_rank Check_hasher = 9"

fun stop_rank :: "pc \<Rightarrow> nat" where
  "stop_rank Exited = 0" | "stop_rank Drop_hasher = 1" | "stop_rank Check_running = 2" | "stop_rank Add_hashes = 3"
| "stop_rank Back_out = 3" | "stop_rank Load_hasher_gen = 3" | "stop_rank Leave = 4" | "stop_rank Start = 4"
| "stop_rank Hash_chunk = 5" | "stop_rank Recheck = 6" | "stop_rank Enter = 7" | "stop_rank Check_work = 8"
| "stop_rank Copy_work = 9" | "stop_rank Load_gen = 10" | "stop_rank Reload_hasher_gen = 11"
| "stop_rank Make_hasher = 12" | "stop_rank Check_hasher = 13" | "stop_rank Check_paused = 14"

lemma rank_bounds: "pause_rank l \<le> 9" "stop_rank l \<le> 14"
  by (cases l; simp)+

interpretation pausing: winding_down kn paused pause_rank
proof unfold_locales
  fix p :: MinerPool and i e and v :: "'c Worker" and e' p' v' sh ns
  assume "paused p" "worker_step kn i (e, p, v) = Inr (e', p', v', sh, ns)"
  then show "paused p' \<and> pause_rank (pc v') \<le> pause_rank (pc v) - 1"
    by (cases "pc v") (auto simp: worker_step_def bindR_eq_Inr split: option.splits)
qed

interpretation stopping: winding_down kn "\<lambda>p. \<not> running p" stop_rank
proof unfold_locales
  fix p :: MinerPool and i e and v :: "'c Worker" and e' p' v' sh ns
  assume "\<not> running p" "worker_step kn i (e, p, v) = Inr (e', p', v', sh, ns)"
  then show "\<not> running p' \<and> stop_rank (pc v') \<le> stop_rank (pc v) - 1"
    by (cases "pc v") (auto simp: worker_step_def bindR_eq_Inr split: option.splits)
qed

section \<open>Properties\<close>

text \<open>
  C5: The pool is safe under every interleaving. In every state that any run reaches with jobs
  whose nonce field lies below the end of the 32-bit range: once \<open>pause\<close> has returned and until
  \<open>resume\<close>, no worker is inside the hashing loop (so the engine can be re-keyed); the counter of
  workers in flight is exactly the number of workers between its increment and its decrement; no
  worker writes past the end of its blob or uses a hasher that is not there, the only step that can fail
  being the making of a hasher, by the factory's own exception; and the hash counter plus what workers are about to add is
  exactly the number of hashes computed.
\<close>

theorem pool_safe:
  assumes "reachable kn fitting_act (system_init n low k) s"
  shows "(ctl s = Held \<longrightarrow> (\<forall>v \<in> set (workers s). pc v \<noteq> Hash_chunk))
     \<and> unat (in_flight (pool s)) = length (List.filter (\<lambda>v. critical (pc v)) (workers s))
     \<and> (\<forall>i < length (workers s). (\<exists>s'. work_of kn i s = Inr s') \<or>
          (\<exists>f. pc (workers s ! i) \<in> {Start, Make_hasher} \<and> kn_make kn (engine_st s) = Inl f \<and> work_of kn i s = Inl f))
     \<and> hashes (pool s) + sum_list (map pending (workers s)) = of_nat (tried s)"
proof -
  have inv: "pool_inv s" using assms by (rule reachable_inv)
  let ?n = "length (List.filter (\<lambda>v. critical (pc v)) (workers s))"
  have "?n \<le> length (workers s)" by (rule length_filter_le)
  also have "\<dots> \<le> unat (threads (pool s))" using inv by (simp add: pool_inv_def)
  also have "\<dots> < 2 ^ 32" using unsigned_less [of "threads (pool s)", where ?'a = nat] by simp
  finally have "unat (in_flight (pool s)) = ?n"
    using inv by (simp only: pool_inv_def flights_count unat_of_nat) simp
  moreover have "\<forall>v \<in> set (workers s). pc v \<noteq> Hash_chunk" if "ctl s = Held"
    using inv that by (auto simp: pool_inv_def hashing_def)
  moreover have "hashes (pool s) + sum_list (map pending (workers s)) = of_nat (tried s)"
    using inv by (simp add: pool_inv_def)
  moreover have "(\<exists>s'. work_of kn i s = Inr s') \<or>
      (\<exists>f. pc (workers s ! i) \<in> {Start, Make_hasher} \<and> kn_make kn (engine_st s) = Inl f \<and> work_of kn i s = Inl f)"
    if i: "i < length (workers s)" for i
  proof (cases "makes (pc (workers s ! i)) \<and> (\<forall>r. kn_make kn (engine_st s) \<noteq> Inr r)")
    case True
    then obtain f where "kn_make kn (engine_st s) = Inl f" by (cases "kn_make kn (engine_st s)") auto
    with True worker_step_throws show ?thesis by (fastforce simp: work_of_def makes_def)
  next
    case False
    then show ?thesis using worker_inv [OF inv i] by blast
  qed
  ultimately show ?thesis by blast
qed

text \<open>Runs on concrete inputs: a pool of one worker, an engine that is a number, which its hashers keep.\<close>

definition demo_kernel :: "(nat, nat, nat) kernel" where
  "demo_kernel = \<lparr>kn_name = ''demo'', kn_make = (\<lambda>e. Inr (e, e)), kn_drop = (\<lambda>h e. e), kn_hash = (\<lambda>e h bs. replicate 32 (of_nat h)),
     kn_rekey = (\<lambda>k e. Inr k)\<rparr>"

definition demo_init :: "(nat, nat) system" where
  "demo_init = system_init 1 False 0"

definition demo_job :: "string \<Rightarrow> MiningJob" where
  "demo_job name = MiningJob_init\<lparr>blob := replicate 80 0, nonce_offset := 76, job_id := name\<rparr>"

lemma demo_reachable:
  "run demo_kernel as demo_init = Some s \<Longrightarrow> \<forall>a \<in> set as. fitting_act a \<Longrightarrow>
     reachable demo_kernel fitting_act (system_init 1 False 0) s"
  unfolding demo_init_def by (erule run_reachable) (auto intro: reachable.init)

lemma demo_can_make: "can_make demo_kernel (\<lambda>_. True)"
  by (simp add: can_make_def demo_kernel_def)

lemma demo_fitting: "fitting_act (Work i)" "fitting_act (Cmd (Set_begin (demo_job name)))"
  "fitting_act (Cmd Set_end)" "fitting_act (Cmd Start_pool)" "fitting_act (Cmd Pause_begin)"
  "fitting_act (Cmd Pause_end)" "fitting_act (Cmd Resume)" "fitting_act (Cmd Rebuild)"
  "fitting_act (Cmd (Rekey k))" "fitting_act (Cmd Stop_begin)"
  by (simp_all add: fitting_act_def fitting_cmd_def demo_job_def fitting_def)

lemmas demo_simps = demo_init_def system_init_def MinerPool_init_def start_def Worker_init_def work_of_def
  worker_step_def pause_set_def resume_def rebuild_hashers_def set_work_bump_def set_work_store_def
  stop_begin_def too_short_def demo_job_def MiningJob_init_def renew_def demo_kernel_def

definition held_run :: "nat act list" where
  "held_run = [Cmd Start_pool, Work 0, Work 0, Cmd Pause_begin, Cmd Pause_end]"

lemma held_run_result:
  obtains s where "run demo_kernel held_run demo_init = Some s" "ctl s = Held" "length (workers s) = 1"
    "reachable demo_kernel fitting_act (system_init 1 False 0) s"
proof -
  obtain s where s: "run demo_kernel held_run demo_init = Some s" "ctl s = Held" "length (workers s) = 1"
    by (simp add: held_run_def demo_simps)
  moreover have "\<forall>a \<in> set held_run. fitting_act a" by (simp add: held_run_def demo_fitting)
  ultimately show thesis using that demo_reachable by blast
qed

theorem pool_safe_witness:
  "\<exists>s. reachable demo_kernel fitting_act (system_init 1 False 0) s \<and> ctl s = Held
     \<and> length (workers s) = 1 \<and> (\<forall>v \<in> set (workers s). pc v \<noteq> Hash_chunk)"
proof -
  obtain s where s: "ctl s = Held" "length (workers s) = 1"
    "reachable demo_kernel fitting_act (system_init 1 False 0) s"
    by (rule held_run_result)
  with pool_safe [OF s(3)] show ?thesis by blast
qed

text \<open>
  C16: Pausing ends. While \<open>pause\<close> waits, under every schedule in which each worker takes at least
  9 steps, in any order and however interleaved, no worker is left in flight, so the waiting loop
  ends; no step along the way is undefined.
\<close>

theorem pause_ends:
  assumes "reachable kn fitting_act (system_init n low e) s" "ctl s = Waiting"
    and "can_make kn ready" "ready (engine_st s)"
    and "\<forall>i \<in> set sched. i < length (workers s)" "\<forall>i < length (workers s). 9 \<le> count_list sched i"
  shows "\<exists>s' s''. run kn (map Work sched) s = Some s' \<and> command kn Pause_end s' = Some s'' \<and> ctl s'' = Held"
proof -
  have inv: "pool_inv s" using assms(1) by (rule reachable_inv)
  then have "paused (pool s)" using assms(2) by (simp add: pool_inv_def)
  from pausing.run_down [OF assms(3,4) inv this assms(5)] obtain s' where
    s': "run kn (map Work sched) s = Some s'" "pool_inv s'" "ctl s' = ctl s"
      "length (workers s') = length (workers s)"
      "\<forall>i < length (workers s). pause_rank (pc (workers s' ! i)) \<le> pause_rank (pc (workers s ! i)) - count_list sched i"
    by blast
  have "pause_rank (pc v) = 0" if v: "v \<in> set (workers s')" for v
  proof -
    obtain i where i: "i < length (workers s)" "v = workers s' ! i" using v s'(4) by (metis in_set_conv_nth)
    have "9 \<le> count_list sched i" using assms(6) i(1) by simp
    then show ?thesis using s'(5) i rank_bounds(1) [of "pc (workers s ! i)"] by fastforce
  qed
  then have "\<forall>v \<in> set (workers s'). \<not> critical (pc v)" by (fastforce simp: critical_def)
  then have "List.filter (\<lambda>v. critical (pc v)) (workers s') = []" by simp
  then have "in_flight (pool s') = 0" using s'(2) by (simp add: pool_inv_def flights_count)
  then show ?thesis using s'(1,3) assms(2) by simp
qed

theorem pause_ends_witness:
  "\<exists>s s' s''. reachable demo_kernel fitting_act (system_init 1 False 0) s \<and> ctl s = Waiting
     \<and> run demo_kernel (map Work (replicate 9 0)) s = Some s'
     \<and> command demo_kernel Pause_end s' = Some s'' \<and> ctl s'' = Held"
proof -
  let ?as = "[Cmd Start_pool, Work 0, Cmd Pause_begin] :: nat act list"
  obtain s where s: "run demo_kernel ?as demo_init = Some s" "ctl s = Waiting" "length (workers s) = 1"
    by (simp add: demo_simps)
  have r: "reachable demo_kernel fitting_act (system_init 1 False 0) s"
    using demo_reachable [OF s(1)] by (simp add: demo_fitting)
  have "\<forall>i \<in> set (replicate 9 0). i < length (workers s)" using s(3) by simp
  moreover have "\<forall>i < length (workers s). 9 \<le> count_list (replicate 9 0) i"
    using s(3) by (simp add: numeral_eq_Suc)
  ultimately show ?thesis using pause_ends [OF r s(2) demo_can_make TrueI] r s(2) by blast
qed

text \<open>
  C17: Stopping ends. Once \<open>stop\<close> has cleared the running flag, under every schedule in which each
  worker takes at least 14 steps all threads have left their loop, so every join returns.
\<close>

theorem stop_ends:
  assumes "reachable kn fitting_act (system_init n low e) s" "ctl s = Joining"
    and "can_make kn ready" "ready (engine_st s)"
    and "\<forall>i \<in> set sched. i < length (workers s)" "\<forall>i < length (workers s). 14 \<le> count_list sched i"
  shows "\<exists>s' s''. run kn (map Work sched) s = Some s' \<and> command kn Stop_join s' = Some s'' \<and> workers s'' = []"
proof -
  have inv: "pool_inv s" using assms(1) by (rule reachable_inv)
  then have "\<not> running (pool s)" using assms(2) by (auto simp: pool_inv_def)
  from stopping.run_down [OF assms(3,4) inv this assms(5)] obtain s' where
    s': "run kn (map Work sched) s = Some s'" "ctl s' = ctl s" "length (workers s') = length (workers s)"
      "\<forall>i < length (workers s). stop_rank (pc (workers s' ! i)) \<le> stop_rank (pc (workers s ! i)) - count_list sched i"
    by blast
  have "pc v = Exited" if v: "v \<in> set (workers s')" for v
  proof -
    obtain i where i: "i < length (workers s)" "v = workers s' ! i" using v s'(3) by (metis in_set_conv_nth)
    have "14 \<le> count_list sched i" using assms(6) i(1) by simp
    then have "stop_rank (pc v) = 0" using s'(4) i rank_bounds(2) [of "pc (workers s ! i)"] by fastforce
    then show ?thesis by (cases "pc v") auto
  qed
  then show ?thesis using s'(1,2) assms(2) by (auto simp: stop_join_def)
qed

theorem stop_ends_witness:
  "\<exists>s s' s''. reachable demo_kernel fitting_act (system_init 1 False 0) s \<and> ctl s = Joining
     \<and> run demo_kernel (map Work (replicate 14 0)) s = Some s'
     \<and> command demo_kernel Stop_join s' = Some s'' \<and> workers s'' = []"
proof -
  let ?as = "[Cmd Start_pool, Work 0, Cmd Stop_begin] :: nat act list"
  obtain s where s: "run demo_kernel ?as demo_init = Some s" "ctl s = Joining" "length (workers s) = 1"
    by (simp add: demo_simps)
  have r: "reachable demo_kernel fitting_act (system_init 1 False 0) s"
    using demo_reachable [OF s(1)] by (simp add: demo_fitting)
  have "\<forall>i \<in> set (replicate 14 0). i < length (workers s)" using s(3) by simp
  moreover have "\<forall>i < length (workers s). 14 \<le> count_list (replicate 14 0) i"
    using s(3) by (simp add: numeral_eq_Suc)
  ultimately show ?thesis using stop_ends [OF r s(2) demo_can_make TrueI] r s(2) by blast
qed

section \<open>What the protocol does not exclude\<close>

text \<open>A worker that believes to have the current generation keeps its job.\<close>

lemma keeps_job_step:
  assumes "worker_step kn i (e, p, v) = Inr (e', p', v', sh, ns)" "local_work_gen v = work_gen p" "pc v \<noteq> Copy_work"
  shows "local_job v' = local_job v \<and> local_work_gen v' = work_gen p' \<and> pc v' \<noteq> Copy_work \<and> work p' = work p"
  using assms by (cases "pc v") (auto simp: worker_step_def bindR_eq_Inr split: option.splits if_splits)

definition believes :: "('e, 'h) system \<Rightarrow> MiningJob \<Rightarrow> bool" where
  "believes s j = (length (workers s) = 1 \<and> local_job (workers s ! 0) = Some j
     \<and> local_work_gen (workers s ! 0) = work_gen (pool s) \<and> pc (workers s ! 0) \<noteq> Copy_work)"

lemma keeps_job_run:
  "believes s j \<Longrightarrow> run kn (map Work sched) s = Some s' \<Longrightarrow> believes s' j \<and> work (pool s') = work (pool s)"
proof (induction sched arbitrary: s)
  case Nil
  then show ?case by simp
next
  case (Cons i sched)
  obtain s1 where s1: "perform kn (Work i) s = Inr (Some s1)" "run kn (map Work sched) s1 = Some s'"
    using Cons.prems(2) by (auto split: sum.splits option.splits)
  then have "i < length (workers s)" by (simp split: if_splits)
  then have i: "i = 0" using Cons.prems(1) by (simp add: believes_def)
  obtain e' p' v' sh ns where
    st: "worker_step kn (of_nat i) (engine_st s, pool s, workers s ! i) = Inr (e', p', v', sh, ns)"
    and s1': "pool s1 = p'" "workers s1 = (workers s)[i := v']"
    using s1(1) by (auto simp: work_of_def bindR_eq_Inr split: if_splits)
  have "believes s1 j \<and> work (pool s1) = work (pool s)"
    using keeps_job_step [OF st] Cons.prems(1) s1' i by (simp add: believes_def)
  with Cons.IH [OF _ s1(2)] show ?case by simp
qed

definition stale_run :: "nat act list" where
  "stale_run = [Cmd (Set_begin (demo_job ''old'')), Cmd Set_end, Cmd Start_pool] @ replicate 5 (Work 0)
     @ [Cmd (Set_begin (demo_job ''new'')), Work 0, Work 0, Cmd Set_end]"

text \<open>
  C39: A replaced job can be mined on. There is a run in which \<open>set_work\<close> has returned with the new
  job stored, and a worker that copied the work between the two halves of \<open>set_work\<close> holds the old
  job together with the new generation: however long it runs, it keeps the old job until the next
  call bumps the generation.
\<close>

theorem stale_job_kept:
  "\<exists>s old new. reachable demo_kernel fitting_act (system_init 1 False 0) s \<and> ctl s = Idle
     \<and> length (workers s) = 1 \<and> work (pool s) = Some new \<and> job_id new = ''new'' \<and> job_id old = ''old''
     \<and> (\<forall>sched s'. run demo_kernel (map Work sched) s = Some s' \<longrightarrow>
          local_job (workers s' ! 0) = Some old \<and> work (pool s') = Some new)"
proof -
  let ?old = "(demo_job ''old'')\<lparr>generation := 1\<rparr>" and ?new = "(demo_job ''new'')\<lparr>generation := 2\<rparr>"
  have "case run demo_kernel stale_run demo_init of None \<Rightarrow> False
      | Some s \<Rightarrow> ctl s = Idle \<and> work (pool s) = Some ?new \<and> believes s ?old"
    by code_simp
  then obtain s where s: "run demo_kernel stale_run demo_init = Some s" "ctl s = Idle"
    "work (pool s) = Some ?new" "believes s ?old"
    by (auto split: option.splits)
  have "reachable demo_kernel fitting_act (system_init 1 False 0) s"
    using demo_reachable [OF s(1)] by (auto simp: stale_run_def demo_fitting)
  moreover have "local_job (workers s' ! 0) = Some ?old \<and> work (pool s') = Some ?new"
    if "run demo_kernel (map Work sched) s = Some s'" for sched s'
    using keeps_job_run [OF s(4) that] s(3) by (simp add: believes_def)
  moreover have "job_id ?new = ''new''" "job_id ?old = ''old''" by (simp_all add: demo_job_def)
  moreover have "length (workers s) = 1" using s(4) by (simp add: believes_def)
  ultimately show ?thesis using s(2,3) by blast
qed

theorem stale_job_kept_witness:
  "\<exists>s s' old new. ctl s = Idle \<and> run demo_kernel [Work 0] s = Some s'
     \<and> local_job (workers s' ! 0) = Some old \<and> work (pool s') = Some new
     \<and> job_id old = ''old'' \<and> job_id new = ''new''"
proof -
  obtain s old new where s: "reachable demo_kernel fitting_act (system_init 1 False 0) s" "ctl s = Idle"
    "length (workers s) = 1" "job_id new = ''new''" "job_id old = ''old''"
    and keep: "\<And>sched s'. run demo_kernel (map Work sched) s = Some s' \<Longrightarrow>
      local_job (workers s' ! 0) = Some old \<and> work (pool s') = Some new"
    using stale_job_kept by blast
  obtain s' where s': "work_of demo_kernel 0 s = Inr s'"
    using worker_inv [OF reachable_inv [OF s(1)], of 0 demo_kernel] s(3) by (auto simp: demo_kernel_def)
  then have r: "run demo_kernel [Work 0] s = Some s'" using s(3) by simp
  then have "run demo_kernel (map Work [0]) s = Some s'" by simp
  from keep [OF this] r s(2,4,5) show ?thesis by blast
qed

definition stale_hasher_run :: "nat act list" where
  "stale_hasher_run = [Cmd (Set_begin (demo_job ''j'')), Cmd Set_end, Cmd Start_pool] @ replicate 8 (Work 0)
     @ [Cmd Pause_begin, Cmd Pause_end, Cmd (Rekey 7), Cmd Rebuild, Cmd Resume, Work 0, Work 0]"

definition make_while_held_run :: "nat act list" where
  "make_while_held_run = Cmd Start_pool # replicate 4 (Work 0)
     @ [Cmd Pause_begin, Cmd Pause_end, Cmd (Rekey 7), Cmd Rebuild, Cmd Resume, Work 0, Cmd Pause_begin, Cmd Pause_end]"

text \<open>
  C40: Re-keying has two gaps. A worker that has passed the check of the hasher generation but not
  yet counted itself in flight can sleep through pause, re-keying, rebuild and resume, and then
  hashes a chunk with the hasher made for the old key; and a worker can be about to make its new
  hasher from the engine while the pool is held for the next re-keying.
\<close>

theorem rekey_gaps:
  "(\<exists>s. reachable demo_kernel fitting_act (system_init 1 False 0) s \<and> ctl s = Idle \<and> engine_st s = 7
      \<and> pc (workers s ! 0) = Hash_chunk \<and> hasher (workers s ! 0) = Some 0
      \<and> local_hasher_gen (workers s ! 0) \<noteq> hasher_gen (pool s)) \<and>
   (\<exists>s. reachable demo_kernel fitting_act (system_init 1 False 0) s \<and> ctl s = Held
      \<and> pc (workers s ! 0) = Make_hasher)"
proof -
  have first: "case run demo_kernel stale_hasher_run demo_init of None \<Rightarrow> False
      | Some s \<Rightarrow> ctl s = Idle \<and> engine_st s = 7 \<and> pc (workers s ! 0) = Hash_chunk \<and> hasher (workers s ! 0) = Some 0
          \<and> local_hasher_gen (workers s ! 0) \<noteq> hasher_gen (pool s)"
    by code_simp
  have second: "case run demo_kernel make_while_held_run demo_init of None \<Rightarrow> False
      | Some s \<Rightarrow> ctl s = Held \<and> pc (workers s ! 0) = Make_hasher"
    by code_simp
  obtain s where s: "run demo_kernel stale_hasher_run demo_init = Some s" "ctl s = Idle" "engine_st s = 7"
    "pc (workers s ! 0) = Hash_chunk" "hasher (workers s ! 0) = Some 0"
    "local_hasher_gen (workers s ! 0) \<noteq> hasher_gen (pool s)"
    using first by (auto split: option.splits)
  have r: "reachable demo_kernel fitting_act (system_init 1 False 0) s"
    using demo_reachable [OF s(1)] by (auto simp: stale_hasher_run_def demo_fitting)
  obtain s' where s': "run demo_kernel make_while_held_run demo_init = Some s'" "ctl s' = Held"
    "pc (workers s' ! 0) = Make_hasher"
    using second by (auto split: option.splits)
  have r': "reachable demo_kernel fitting_act (system_init 1 False 0) s'"
    using demo_reachable [OF s'(1)] by (auto simp: make_while_held_run_def demo_fitting)
  show ?thesis using s r s' r' by blast
qed

end
