(* ===== verification/RandomX.thy ===== *)
theory RandomX
  imports Sha256 "HOL-Library.Multiset"
begin

text \<open>
  The RandomX engine (\<open>src/pow/randomx_context.cpp\<close>, \<open>src/pow/randomx_hasher.cpp\<close>) and the
  SHA-256d kernel (\<open>src/pow/sha256d_hasher.cpp\<close>). The RandomX library is not part of the
  sources: its functions and flag values are the fields of \<open>randomx_api\<close>, on a world \<open>'z\<close> that
  holds the caches, datasets and virtual machines. A handle is a number, \<open>None\<close> is a null
  pointer. \<open>unsigned long\<close> has 64 bits. The locale \<open>randomx_library\<close> states what the engine relies
  on of the library, and a scripted library shows that it can be met.
\<close>

section \<open>Definitions\<close>

subsection \<open>The library\<close>

record 'z randomx_api =
  FLAG_LARGE_PAGES :: u32
  FLAG_FULL_MEM :: u32
  FLAG_SECURE :: u32
  rx_get_flags :: "'z \<Rightarrow> u32"
  rx_alloc_cache :: "u32 \<Rightarrow> 'z \<Rightarrow> nat option \<times> 'z"
  rx_init_cache :: "nat \<Rightarrow> bytes \<Rightarrow> 'z \<Rightarrow> 'z"
  rx_release_cache :: "nat \<Rightarrow> 'z \<Rightarrow> 'z"
  rx_alloc_dataset :: "u32 \<Rightarrow> 'z \<Rightarrow> nat option \<times> 'z"
  rx_item_count :: u64
  rx_init_dataset :: "nat \<Rightarrow> nat \<Rightarrow> u64 \<Rightarrow> u64 \<Rightarrow> 'z \<Rightarrow> 'z"
  rx_release_dataset :: "nat \<Rightarrow> 'z \<Rightarrow> 'z"
  rx_create_vm :: "u32 \<Rightarrow> nat option \<Rightarrow> nat option \<Rightarrow> 'z \<Rightarrow> nat option \<times> 'z"
  rx_destroy_vm :: "nat \<Rightarrow> 'z \<Rightarrow> 'z"
  rx_calculate_hash :: "nat \<Rightarrow> bytes \<Rightarrow> 'z \<Rightarrow> bytes"

definition without :: "u32 \<Rightarrow> u32 \<Rightarrow> u32" where
  "without a b = a AND NOT b"

subsection \<open>The context\<close>

record Options =
  opt_fast_mode :: bool
  opt_init_threads :: u32
  opt_large_pages :: bool
  opt_secure_jit :: bool

definition Options_init :: Options where
  "Options_init = \<lparr>opt_fast_mode = False, opt_init_threads = 0, opt_large_pages = False, opt_secure_jit = False\<rparr>"

record RandomXContext =
  rx_opt :: Options
  rx_seed :: bytes
  seeded :: bool
  fast :: bool
  init_threads :: u32
  rx_flags :: u32
  rx_cache :: "nat option"
  rx_dataset :: "nat option"

text \<open>\<open>hw\<close> is the value of \<open>std::thread::hardware_concurrency()\<close>.\<close>

definition initial_flags :: "'z randomx_api \<Rightarrow> Options \<Rightarrow> 'z \<Rightarrow> u32" where
  "initial_flags X opt z =
     (let flags = rx_get_flags X z;
          flags = (if opt_large_pages opt then flags OR FLAG_LARGE_PAGES X else flags);
          flags = (if opt_secure_jit opt then flags OR FLAG_SECURE X else flags)
      in if opt_fast_mode opt then flags OR FLAG_FULL_MEM X else flags)"

definition alloc_cache :: "'z randomx_api \<Rightarrow> Options \<Rightarrow> u32 \<Rightarrow> 'z \<Rightarrow> nat option \<times> u32 \<times> 'z" where
  "alloc_cache X opt flags z =
     (case rx_alloc_cache X flags z of
        (None, z) \<Rightarrow>
          if opt_large_pages opt then
            (let flags = without flags (FLAG_LARGE_PAGES X);
                 (c, z) = rx_alloc_cache X flags z
             in (c, flags, z))
          else (None, flags, z)
      | (Some c, z) \<Rightarrow> (Some c, flags, z))"

definition RandomXContext_new :: "'z randomx_api \<Rightarrow> u32 \<Rightarrow> Options \<Rightarrow> 'z \<Rightarrow> (RandomXContext \<times> 'z) res" where
  "RandomXContext_new X hw opt z =
     (let threads = (if opt_init_threads opt \<noteq> 0 then opt_init_threads opt else max 1 hw);
          (c, flags, z) = alloc_cache X opt (initial_flags X opt z) z;
          ctx = \<lparr>rx_opt = opt, rx_seed = [], seeded = False, fast = opt_fast_mode opt, init_threads = threads,
                 rx_flags = flags, rx_cache = c, rx_dataset = None\<rparr>
      in if c = None then throw ''randomx: failed to allocate the 256 MB cache''
         else if opt_fast_mode opt then
           (case rx_alloc_dataset X flags z of
              (None, z) \<Rightarrow> Inr (ctx\<lparr>fast := False, rx_flags := without flags (FLAG_FULL_MEM X)\<rparr>, z)
            | (Some d, z) \<Rightarrow> Inr (ctx\<lparr>rx_dataset := Some d\<rparr>, z))
         else Inr (ctx, z))"

definition RandomXContext_delete :: "'z randomx_api \<Rightarrow> RandomXContext \<Rightarrow> 'z \<Rightarrow> 'z" where
  "RandomXContext_delete X ctx z =
     (let z = (case rx_dataset ctx of None \<Rightarrow> z | Some d \<Rightarrow> rx_release_dataset X d z)
      in case rx_cache ctx of None \<Rightarrow> z | Some c \<Rightarrow> rx_release_cache X c z)"

definition cache_for_vm :: "RandomXContext \<Rightarrow> nat option" where
  "cache_for_vm ctx = (if fast ctx then None else rx_cache ctx)"

definition dataset_for_vm :: "RandomXContext \<Rightarrow> nat option" where
  "dataset_for_vm ctx = (if fast ctx then rx_dataset ctx else None)"

definition memory_mb :: "RandomXContext \<Rightarrow> nat" where
  "memory_mb ctx = (if fast ctx then 2336 else 256)"

text \<open>
  The range of dataset items of the thread \<open>i\<close> of \<open>n\<close>, and the threads in the order in which they
  are started. \<open>order\<close> is the order in which the scheduler lets them work; their ranges do not
  overlap, so a thread's call of the library is one step.
\<close>

definition build_range :: "u64 \<Rightarrow> u32 \<Rightarrow> u32 \<Rightarrow> u64 \<times> u64" where
  "build_range items n i =
     (let per = items div ucast n; start = ucast i * per
      in (start, if i = n - 1 then items - start else per))"

definition build_ranges :: "u64 \<Rightarrow> u32 \<Rightarrow> (u64 \<times> u64) list" where
  "build_ranges items n = map (\<lambda>i. build_range items n (of_nat i)) [0..<unat n]"

type_synonym thread_order = "(u64 \<times> u64) list \<Rightarrow> (u64 \<times> u64) list"

definition build_dataset_parallel ::
    "'z randomx_api \<Rightarrow> thread_order \<Rightarrow> RandomXContext \<Rightarrow> 'z \<Rightarrow> 'z res" where
  "build_dataset_parallel X order ctx z =
     (case (rx_dataset ctx, rx_cache ctx) of
        (Some d, Some c) \<Rightarrow>
          Inr (fold (\<lambda>(start, num). rx_init_dataset X d c start num)
                 (order (build_ranges (rx_item_count X) (max 1 (init_threads ctx)))) z)
      | _ \<Rightarrow> Inl Undefined)"

definition ensure_seed ::
    "'z randomx_api \<Rightarrow> thread_order \<Rightarrow> bytes \<Rightarrow> RandomXContext \<Rightarrow> 'z \<Rightarrow> (RandomXContext \<times> 'z) res" where
  "ensure_seed X order seed ctx z =
     (if seeded ctx \<and> seed = rx_seed ctx then Inr (ctx, z)
      else case rx_cache ctx of
        None \<Rightarrow> Inl Undefined
      | Some c \<Rightarrow>
          bindR (if fast ctx then build_dataset_parallel X order ctx (rx_init_cache X c seed z)
                 else Inr (rx_init_cache X c seed z)) (\<lambda>z.
            Inr (ctx\<lparr>rx_seed := seed, seeded := True\<rparr>, z)))"

subsection \<open>The hashers\<close>

definition RandomXHasher_new :: "'z randomx_api \<Rightarrow> RandomXContext \<Rightarrow> 'z \<Rightarrow> (nat \<times> 'z) res" where
  "RandomXHasher_new X ctx z =
     (if \<not> seeded ctx then throw ''randomx: context must be seeded before creating a VM''
      else case rx_create_vm X (rx_flags ctx) (cache_for_vm ctx) (dataset_for_vm ctx) z of
        (None, z) \<Rightarrow> throw ''randomx: randomx_create_vm failed (unsupported flags or allocation)''
      | (Some v, z) \<Rightarrow> Inr (v, z))"

definition RandomXHasher_delete :: "'z randomx_api \<Rightarrow> nat \<Rightarrow> 'z \<Rightarrow> 'z" where
  "RandomXHasher_delete X v z = rx_destroy_vm X v z"

definition RandomXHasher_hash :: "'z randomx_api \<Rightarrow> nat \<Rightarrow> bytes \<Rightarrow> 'z \<Rightarrow> bytes" where
  "RandomXHasher_hash X v d z = rx_calculate_hash X v d z"

definition Sha256dHasher_hash :: "bytes \<Rightarrow> bytes res" where
  "Sha256dHasher_hash d = sha256d d"

section \<open>The threads' ranges\<close>

lemma max_one_nonzero: "max 1 n \<noteq> (0 :: u32)"
  by (auto simp: max_def)

lemma part_le_total: "i \<le> n \<Longrightarrow> i * (m div n) \<le> (m :: nat)"
  using mult_le_mono1 [of i n "m div n"] times_div_less_eq_dividend [of n m] by linarith

lemma build_range_unat:
  assumes "i < unat n"
  shows "unat (fst (build_range items n (of_nat i))) = i * (unat items div unat n)"
    and "unat (snd (build_range items n (of_nat i))) =
           (if i = unat n - 1 then unat items - i * (unat items div unat n) else unat items div unat n)"
proof -
  let ?per = "unat items div unat n"
  have i32: "i < 2 ^ 32" using assms unsigned_less [of n, where ?'a = nat] by simp
  then have ui: "unat (of_nat i :: u32) = i" by (simp add: unat_of_nat take_bit_nat_eq_self)
  then have uci: "unat (ucast (of_nat i :: u32) :: u64) = i"
    using i32 by (simp add: unsigned_ucast_eq take_bit_nat_eq_self)
  have "unat (ucast n :: u64) = unat n"
    using unsigned_less [of n, where ?'a = nat] by (simp add: unsigned_ucast_eq take_bit_nat_eq_self)
  then have per: "unat (items div ucast n :: u64) = ?per" by (simp add: unat_div_distrib)
  have le: "i * ?per \<le> unat items"
    by (rule part_le_total) (use assms in simp)
  then have "i * ?per < 2 ^ 64" using unsigned_less [of items, where ?'a = nat] by simp
  then have start: "unat (ucast (of_nat i :: u32) * (items div ucast n) :: u64) = i * ?per"
    using uci per by (simp add: unat_mult_lem [THEN iffD1])
  have last: "(of_nat i = n - 1) = (i = unat n - 1)"
  proof -
    have "unat (n - 1) = unat n - 1"
      using assms by (metis less_zeroE unat_minus_one unsigned_0)
    then show ?thesis using ui by (simp add: word_unat_eq_iff)
  qed
  show "unat (fst (build_range items n (of_nat i))) = i * ?per"
    using start by (simp add: build_range_def Let_def)
  show "unat (snd (build_range items n (of_nat i))) =
           (if i = unat n - 1 then unat items - i * ?per else ?per)"
    using unat_sub [of "ucast (of_nat i :: u32) * (items div ucast n)" items] start per last le
    by (auto simp: build_range_def Let_def word_le_nat_alt simp del: of_nat_diff)
qed

definition range_items :: "u64 \<times> u64 \<Rightarrow> nat list" where
  "range_items r = [unat (fst r)..<unat (fst r) + unat (snd r)]"

lemma build_ranges_prefix:
  assumes "k < unat n"
  shows "concat (map range_items (map (\<lambda>i. build_range items n (of_nat i)) [0..<k]))
           = [0..<k * (unat items div unat n)]"
  using assms
proof (induction k)
  case 0
  then show ?case by simp
next
  case (Suc k)
  let ?per = "unat items div unat n"
  have "range_items (build_range items n (of_nat k)) = [k * ?per..<k * ?per + ?per]"
    using Suc.prems by (simp add: range_items_def build_range_unat)
  moreover have "[0..<Suc k * ?per] = [0..<k * ?per] @ [k * ?per..<k * ?per + ?per]"
    by (metis add.commute mult_Suc upt_add_eq_append zero_le)
  ultimately show ?case using Suc by simp
qed

lemma build_ranges_partition:
  assumes "n \<noteq> 0"
  shows "concat (map range_items (build_ranges items n)) = [0..<unat items]"
proof -
  let ?per = "unat items div unat n"
  obtain k where n: "unat n = Suc k" using assms by (metis not0_implies_Suc unat_eq_0)
  have le: "k * ?per \<le> unat items" by (rule part_le_total) (use n in simp)
  have "range_items (build_range items n (of_nat k)) = [k * ?per..<unat items]"
    using n le by (simp add: range_items_def build_range_unat)
  moreover have "[0..<unat items] = [0..<k * ?per] @ [k * ?per..<unat items]"
    using le by (metis le_add_diff_inverse upt_add_eq_append zero_le)
  ultimately show ?thesis
    using build_ranges_prefix [of k n items] n by (simp add: build_ranges_def)
qed

lemma build_ranges_cover:
  "n \<noteq> 0 \<Longrightarrow> (\<exists>r \<in> set (build_ranges items n). i \<in> set (range_items r)) = (i < unat items)"
  using arg_cong [OF build_ranges_partition [of n items], of set] by auto

section \<open>What the engine relies on of the library\<close>

text \<open>
  \<open>cache_key c z\<close> is the key the cache was last initialised with, \<open>item_key d i z\<close> the key of the
  cache the item \<open>i\<close> of the dataset was last computed from, and \<open>rx\<close> the RandomX function. A
  machine made with a cache computes \<open>rx\<close> under the cache's key, one made in full-memory mode
  with a dataset under the key all its items have.
\<close>

locale randomx_library =
  fixes X :: "'z randomx_api"
    and cache_key :: "nat \<Rightarrow> 'z \<Rightarrow> bytes option"
    and item_key :: "nat \<Rightarrow> nat \<Rightarrow> 'z \<Rightarrow> bytes option"
    and rx :: "bytes \<Rightarrow> bytes \<Rightarrow> bytes"
  assumes full_mem: "FLAG_FULL_MEM X \<noteq> 0"
    and other_flags: "FLAG_LARGE_PAGES X AND FLAG_FULL_MEM X = 0" "FLAG_SECURE X AND FLAG_FULL_MEM X = 0"
    and get_flags: "rx_get_flags X z AND FLAG_FULL_MEM X = 0"
    and init_cache: "cache_key c' (rx_init_cache X c seed z) = (if c' = c then Some seed else cache_key c' z)"
    and init_dataset: "cache_key c z = Some k \<Longrightarrow> item_key d' i (rx_init_dataset X d c start num z) =
          (if d' = d \<and> unat start \<le> i \<and> i < unat start + unat num then Some k else item_key d' i z)"
    and init_dataset_cache: "cache_key c' (rx_init_dataset X d c start num z) = cache_key c' z"
    and vm_light: "rx_create_vm X flags (Some c) None z = (Some v, z') \<Longrightarrow> flags AND FLAG_FULL_MEM X = 0
          \<Longrightarrow> cache_key c z = Some k \<Longrightarrow> rx_calculate_hash X v m z' = rx k m"
    and vm_full: "rx_create_vm X flags None (Some d) z = (Some v, z') \<Longrightarrow> flags AND FLAG_FULL_MEM X \<noteq> 0
          \<Longrightarrow> (\<And>i. i < unat (rx_item_count X) \<Longrightarrow> item_key d i z = Some k)
          \<Longrightarrow> rx_calculate_hash X v m z' = rx k m"

text \<open>
  The invariant of a context: the three witnesses of the mode agree, and once seeded the cache,
  and in fast mode every item of the dataset, is derived from the stored seed.
\<close>

definition keyed :: "'z randomx_api \<Rightarrow> (nat \<Rightarrow> 'z \<Rightarrow> bytes option) \<Rightarrow> (nat \<Rightarrow> nat \<Rightarrow> 'z \<Rightarrow> bytes option)
    \<Rightarrow> bytes \<Rightarrow> RandomXContext \<Rightarrow> 'z \<Rightarrow> bool" where
  "keyed X cache_key item_key k ctx z =
     ((\<forall>c. rx_cache ctx = Some c \<longrightarrow> cache_key c z = Some k) \<and>
      (\<forall>d. rx_dataset ctx = Some d \<longrightarrow> (\<forall>i < unat (rx_item_count X). item_key d i z = Some k)))"

definition mode_ok :: "'z randomx_api \<Rightarrow> RandomXContext \<Rightarrow> bool" where
  "mode_ok X ctx = (rx_cache ctx \<noteq> None \<and> fast ctx = (rx_dataset ctx \<noteq> None) \<and>
     fast ctx = (rx_flags ctx AND FLAG_FULL_MEM X \<noteq> 0))"

context randomx_library
begin

lemma without_self: "without f (FLAG_FULL_MEM X) AND FLAG_FULL_MEM X = 0"
  by (simp add: without_def and.assoc and.left_commute)

lemma without_other: "without f (FLAG_LARGE_PAGES X) AND FLAG_FULL_MEM X = f AND FLAG_FULL_MEM X"
proof (rule bit_eqI)
  fix j
  assume "possible_bit TYPE(u32) j"
  have "\<not> (bit (FLAG_LARGE_PAGES X) j \<and> bit (FLAG_FULL_MEM X) j)"
    using arg_cong [OF other_flags(1), of "\<lambda>w. bit w j"] by (simp add: bit_and_iff)
  then show "bit (without f (FLAG_LARGE_PAGES X) AND FLAG_FULL_MEM X) j = bit (f AND FLAG_FULL_MEM X) j"
    using \<open>possible_bit TYPE(u32) j\<close> by (auto simp: without_def bit_simps)
qed

lemma initial_flags_mode: "(initial_flags X opt z AND FLAG_FULL_MEM X \<noteq> 0) = opt_fast_mode opt"
  using full_mem other_flags get_flags [of z]
  by (simp add: initial_flags_def Let_def bit.conj_disj_distrib2)

lemma alloc_cache_mode:
  "alloc_cache X opt f z = (c, f', z') \<Longrightarrow> f' AND FLAG_FULL_MEM X = f AND FLAG_FULL_MEM X"
  by (auto simp: alloc_cache_def without_other Let_def split: prod.splits option.splits if_splits)

lemma new_mode:
  "ensures (RandomXContext_new X hw opt z) (\<lambda>(ctx, z'). mode_ok X ctx \<and> \<not> seeded ctx)"
proof (cases "alloc_cache X opt (initial_flags X opt z) z")
  case (fields c f z1)
  then have "(f AND FLAG_FULL_MEM X \<noteq> 0) = opt_fast_mode opt"
    using alloc_cache_mode initial_flags_mode by metis
  then show ?thesis
    using fields without_self
    by (auto simp: RandomXContext_new_def ensures_def mode_ok_def Let_def split: prod.splits option.splits if_splits)
qed

text \<open>Threads over ranges in any order: the items of the ranges get the cache's key.\<close>

lemma init_ranges:
  "cache_key c z = Some k \<Longrightarrow>
     (let z' = fold (\<lambda>(start, num). rx_init_dataset X d c start num) rs z
      in (\<forall>c'. cache_key c' z' = cache_key c' z) \<and>
         (\<forall>i. item_key d i z' = (if \<exists>r \<in> set rs. i \<in> set (range_items r) then Some k else item_key d i z)))"
proof (induction rs arbitrary: z)
  case Nil
  then show ?case by simp
next
  case (Cons r rs)
  then show ?case
    using Cons.IH [of "rx_init_dataset X d c (fst r) (snd r) z"]
    by (auto simp: Let_def split_beta init_dataset init_dataset_cache range_items_def)
qed

lemma ensure_seed_keyed:
  assumes "mode_ok X ctx" "seeded ctx \<Longrightarrow> keyed X cache_key item_key (rx_seed ctx) ctx z"
    and "\<And>rs. mset (order rs) = mset rs"
  shows "\<exists>ctx' z'. ensure_seed X order seed ctx z = Inr (ctx', z') \<and> mode_ok X ctx' \<and> seeded ctx'
     \<and> rx_seed ctx' = seed \<and> keyed X cache_key item_key seed ctx' z'"
proof (cases "seeded ctx \<and> seed = rx_seed ctx")
  case True
  then show ?thesis using assms(1,2) by (simp add: ensure_seed_def)
next
  case False
  obtain c where c: "rx_cache ctx = Some c" using assms(1) by (auto simp: mode_ok_def)
  let ?z = "rx_init_cache X c seed z" and ?ctx = "ctx\<lparr>rx_seed := seed, seeded := True\<rparr>"
  have mode: "mode_ok X ?ctx" using assms(1) unfolding mode_ok_def by simp metis
  show ?thesis
  proof (cases "rx_dataset ctx")
    case None
    then show ?thesis
      using False c assms(1) mode by (auto simp: ensure_seed_def mode_ok_def keyed_def init_cache)
  next
    case (Some d)
    let ?rs = "order (build_ranges (rx_item_count X) (max 1 (init_threads ctx)))"
    let ?z' = "fold (\<lambda>(start, num). rx_init_dataset X d c start num) ?rs ?z"
    have "set ?rs = set (build_ranges (rx_item_count X) (max 1 (init_threads ctx)))"
      using assms(3) by (metis set_mset_mset)
    then have "keyed X cache_key item_key seed ?ctx ?z'"
      using init_ranges [of c ?z seed d ?rs] c Some build_ranges_cover [OF max_one_nonzero]
      by (simp add: keyed_def init_cache Let_def)
    moreover have "ensure_seed X order seed ctx z = Inr (?ctx, ?z')"
      using False c Some assms(1) by (auto simp: ensure_seed_def build_dataset_parallel_def mode_ok_def)
    ultimately show ?thesis using mode by simp
  qed
qed

lemma hasher_keyed:
  assumes "mode_ok X ctx" "keyed X cache_key item_key k ctx z" "RandomXHasher_new X ctx z = Inr (v, z')"
  shows "RandomXHasher_hash X v m z' = rx k m"
proof -
  have vm: "rx_create_vm X (rx_flags ctx) (cache_for_vm ctx) (dataset_for_vm ctx) z = (Some v, z')"
    using assms(3) by (auto simp: RandomXHasher_new_def split: if_splits prod.splits option.splits)
  show ?thesis
  proof (cases "fast ctx")
    case True
    then show ?thesis
      using assms(1,2) vm vm_full [of "rx_flags ctx" _ z v z' k m]
      by (auto simp: RandomXHasher_hash_def mode_ok_def keyed_def cache_for_vm_def dataset_for_vm_def)
  next
    case False
    then show ?thesis
      using assms(1,2) vm vm_light [of "rx_flags ctx" _ z v z' k m]
      by (auto simp: RandomXHasher_hash_def mode_ok_def keyed_def cache_for_vm_def dataset_for_vm_def)
  qed
qed

end

section \<open>A scripted library\<close>

text \<open>
  A library for concrete runs: datasets of ten items, allocation that fails where the world says
  so, and a stand-in for the hash function that mixes nothing.
\<close>

record rx_world =
  w_keys :: "nat \<Rightarrow> bytes option"
  w_items :: "nat \<Rightarrow> nat \<Rightarrow> bytes option"
  w_vms :: "nat \<Rightarrow> bytes option option"
  w_handle :: nat
  w_large :: bool
  w_full :: bool

definition rx_world_init :: "bool \<Rightarrow> bool \<Rightarrow> rx_world" where
  "rx_world_init large full = \<lparr>w_keys = (\<lambda>_. None), w_items = (\<lambda>_ _. None), w_vms = (\<lambda>_. None), w_handle = 1,
     w_large = large, w_full = full\<rparr>"

definition scripted_rx :: "bytes \<Rightarrow> bytes \<Rightarrow> bytes" where
  "scripted_rx k m = take 32 (k @ m @ replicate 32 0)"

definition rx_api :: "rx_world randomx_api" where
  "rx_api = \<lparr>FLAG_LARGE_PAGES = 1, FLAG_FULL_MEM = 4, FLAG_SECURE = 16,
     rx_get_flags = (\<lambda>z. 8),
     rx_alloc_cache = (\<lambda>f z. if f AND 1 \<noteq> 0 \<and> \<not> w_large z then (None, z)
        else (Some (w_handle z), z\<lparr>w_handle := w_handle z + 1\<rparr>)),
     rx_init_cache = (\<lambda>c seed z. z\<lparr>w_keys := (w_keys z)(c := Some seed)\<rparr>),
     rx_release_cache = (\<lambda>c z. z\<lparr>w_keys := (w_keys z)(c := None)\<rparr>),
     rx_alloc_dataset = (\<lambda>f z. if w_full z then (Some (w_handle z), z\<lparr>w_handle := w_handle z + 1\<rparr>) else (None, z)),
     rx_item_count = 10,
     rx_init_dataset = (\<lambda>d c start num z. z\<lparr>w_items := (w_items z)(d := (\<lambda>i.
        if unat start \<le> i \<and> i < unat start + unat num then w_keys z c else w_items z d i))\<rparr>),
     rx_release_dataset = (\<lambda>d z. z\<lparr>w_items := (w_items z)(d := (\<lambda>_. None))\<rparr>),
     rx_create_vm = (\<lambda>f c d z. (Some (w_handle z), z\<lparr>w_handle := w_handle z + 1, w_vms := (w_vms z)(w_handle z :=
        Some (case (c, d) of (Some c, None) \<Rightarrow> w_keys z c | (None, Some d) \<Rightarrow> w_items z d 0 | _ \<Rightarrow> None))\<rparr>)),
     rx_destroy_vm = (\<lambda>v z. z\<lparr>w_vms := (w_vms z)(v := None)\<rparr>),
     rx_calculate_hash = (\<lambda>v m z. case w_vms z v of Some (Some k) \<Rightarrow> scripted_rx k m | _ \<Rightarrow> [])\<rparr>"

interpretation rxlib: randomx_library rx_api "\<lambda>c z. w_keys z c" "\<lambda>d i z. w_items z d i" scripted_rx
proof unfold_locales
  fix flags d z v z' k m
  assume "rx_create_vm rx_api flags None (Some d) z = (Some v, z')"
    and k: "\<And>i. i < unat (rx_item_count rx_api) \<Longrightarrow> w_items z d i = Some k"
  moreover have "w_items z d 0 = Some k" using k [of 0] by (simp add: rx_api_def)
  ultimately show "rx_calculate_hash rx_api v m z' = scripted_rx k m" by (auto simp: rx_api_def)
qed (auto simp: rx_api_def)

text \<open>
  Several machines at once: \<open>vms z\<close> are the machines that exist. A new one is none of them, and making or
  destroying one leaves the caches, the datasets and what the others compute as they are. Nothing is
  said of a machine once its cache or dataset has been initialised again.
\<close>

locale randomx_machines = randomx_library X cache_key item_key rx
  for X :: "'z randomx_api" and cache_key item_key and rx :: "bytes \<Rightarrow> bytes \<Rightarrow> bytes" +
  fixes vms :: "'z \<Rightarrow> nat set"
  assumes hash_size: "length (rx k m) = 32"
    and create_keys: "rx_create_vm X flags c d z = (r, z') \<Longrightarrow>
          cache_key c' z' = cache_key c' z \<and> item_key d' i z' = item_key d' i z"
    and create_fresh: "rx_create_vm X flags c d z = (Some v, z') \<Longrightarrow> v \<notin> vms z \<and> vms z' = insert v (vms z)"
    and create_others: "rx_create_vm X flags c d z = (r, z') \<Longrightarrow> u \<in> vms z \<Longrightarrow>
          rx_calculate_hash X u m z' = rx_calculate_hash X u m z"
    and destroy_keys: "cache_key c' (rx_destroy_vm X v z) = cache_key c' z"
          "item_key d' i (rx_destroy_vm X v z) = item_key d' i z"
    and destroy_vms: "vms (rx_destroy_vm X v z) = vms z - {v}"
    and destroy_others: "u \<in> vms z \<Longrightarrow> u \<noteq> v \<Longrightarrow>
          rx_calculate_hash X u m (rx_destroy_vm X v z) = rx_calculate_hash X u m z"

interpretation rxvms: randomx_machines rx_api "\<lambda>c z. w_keys z c" "\<lambda>d i z. w_items z d i" scripted_rx
  "\<lambda>z. {v. v < w_handle z \<and> w_vms z v \<noteq> None}"
  by unfold_locales (auto simp: rx_api_def scripted_rx_def)

section \<open>Properties\<close>

text \<open>
  C10: The seed governs the hash. Once the pool's seed has been given to the context, by any
  sequence of \<open>ensure_seed\<close> calls, which always return, every hasher made from the context
  computes the RandomX function under the last seed: in light mode, in fast mode for any number
  of initialising threads that run in any order, and after both fallbacks of the constructor.
  Before the first seed the hasher's constructor throws.
\<close>

theorem rx_seed_governs_hash:
  assumes "randomx_library X cache_key item_key rx"
    and "\<And>rs. mset (order rs) = mset rs"
    and "RandomXContext_new X hw opt z = Inr (ctx, z1)"
    and "seeds \<noteq> []"
  shows "RandomXHasher_new X ctx z1 = throw ''randomx: context must be seeded before creating a VM'' \<and>
     (\<exists>ctx' z'. foldR (\<lambda>(ctx, z) seed. ensure_seed X order seed ctx z) (ctx, z1) seeds = Inr (ctx', z') \<and>
        (\<forall>v z'' m. RandomXHasher_new X ctx' z' = Inr (v, z'') \<longrightarrow>
           RandomXHasher_hash X v m z'' = rx (last seeds) m))"
proof -
  let ?step = "\<lambda>(ctx, z) seed. ensure_seed X order seed ctx z"
  have new: "mode_ok X ctx" "\<not> seeded ctx"
    using randomx_library.new_mode [OF assms(1)] assms(3) by (force simp: ensures_def)+
  have step: "\<exists>ctx' z'. foldR ?step (ctx, z1) seeds = Inr (ctx', z') \<and> mode_ok X ctx' \<and> seeded ctx' \<and>
     rx_seed ctx' = last seeds \<and> keyed X cache_key item_key (last seeds) ctx' z'"
    if "seeds \<noteq> []" "mode_ok X ctx" "seeded ctx \<Longrightarrow> keyed X cache_key item_key (rx_seed ctx) ctx z1"
    for seeds ctx z1
    using that
  proof (induction seeds arbitrary: ctx z1)
    case (Cons seed seeds)
    obtain ctx2 z2 where s: "ensure_seed X order seed ctx z1 = Inr (ctx2, z2)" "mode_ok X ctx2" "seeded ctx2"
        "rx_seed ctx2 = seed" "keyed X cache_key item_key seed ctx2 z2"
      using randomx_library.ensure_seed_keyed [OF assms(1) Cons.prems(2,3) assms(2)] by blast
    show ?case using Cons.IH [of ctx2 z2] s by (cases "seeds = []") auto
  qed simp
  show ?thesis
    using step [OF assms(4) new(1)] new randomx_library.hasher_keyed [OF assms(1)]
    by (auto simp: RandomXHasher_new_def [of X ctx z1]) blast
qed

theorem rx_seed_governs_hash_witness:
  "randomx_library rx_api (\<lambda>c z. w_keys z c) (\<lambda>d i z. w_items z d i) scripted_rx \<and>
   (case RandomXContext_new rx_api 0 \<lparr>opt_fast_mode = True, opt_init_threads = 3, opt_large_pages = True,
          opt_secure_jit = False\<rparr> (rx_world_init False True) of
      Inl _ \<Rightarrow> False
    | Inr (ctx, z1) \<Rightarrow> fast ctx \<and> rx_flags ctx = 12 \<and>
        (\<exists>ctx' z'. foldR (\<lambda>(ctx, z) seed. ensure_seed rx_api rev seed ctx z) (ctx, z1) [[1], [2]] = Inr (ctx', z') \<and>
          (\<forall>v z'' m. RandomXHasher_new rx_api ctx' z' = Inr (v, z'') \<longrightarrow>
             RandomXHasher_hash rx_api v m z'' = scripted_rx [2] m)))"
proof -
  let ?opt = "\<lparr>opt_fast_mode = True, opt_init_threads = 3, opt_large_pages = True, opt_secure_jit = False\<rparr>"
  obtain ctx z1 where new: "RandomXContext_new rx_api 0 ?opt (rx_world_init False True) = Inr (ctx, z1)"
      "fast ctx" "rx_flags ctx = 12"
    by (auto simp: RandomXContext_new_def alloc_cache_def initial_flags_def rx_api_def rx_world_init_def without_def)
  then show ?thesis
    using rx_seed_governs_hash [OF rxlib.randomx_library_axioms _ new(1), of rev "[[1], [2]]"]
      rxlib.randomx_library_axioms
    by simp
qed

text \<open>
  The dataset is shared out exactly. For every number of items and every configured number
  of threads the ranges given to the threads, read in order, are the items from 0 up, each
  once: none is left out, none is computed by two threads and no product overflows.
\<close>

theorem build_ranges_exact:
  "concat (map range_items (build_ranges items (max 1 n))) = [0..<unat items] \<and>
   length (build_ranges items (max 1 n)) = unat (max 1 n)"
  using build_ranges_partition [OF max_one_nonzero] by (simp add: build_ranges_def)

text \<open>
  C23: The mode of a context is consistent. Whatever is requested and whichever allocation fails,
  a constructed context has a cache, is fast exactly when it has a dataset and exactly when its
  flags ask for full memory, and hands exactly one of the two to a machine; every
  \<open>ensure_seed\<close> keeps this. The constructor throws exactly when there is no cache, also not
  without large pages.
\<close>

theorem rx_context_mode:
  assumes "randomx_library X cache_key item_key rx" and "mode_ok X ctx0"
  shows "ensures (RandomXContext_new X hw opt z) (\<lambda>(ctx, z'). mode_ok X ctx \<and> init_threads ctx \<noteq> 0 \<and>
       (cache_for_vm ctx = None) \<noteq> (dataset_for_vm ctx = None) \<and> (fast ctx \<longrightarrow> opt_fast_mode opt))
    \<and> (\<exists>f. RandomXContext_new X hw opt z = Inl f) =
      (case rx_alloc_cache X (initial_flags X opt z) z of (None, z') \<Rightarrow>
          (opt_large_pages opt \<longrightarrow>
             fst (rx_alloc_cache X (without (initial_flags X opt z) (FLAG_LARGE_PAGES X)) z') = None)
       | _ \<Rightarrow> False)
    \<and> ensures (ensure_seed X order seed ctx0 z) (\<lambda>(ctx', z'). mode_ok X ctx' \<and>
       cache_for_vm ctx' = cache_for_vm ctx0 \<and> dataset_for_vm ctx' = dataset_for_vm ctx0)"
proof (intro conjI)
  have "ensures (RandomXContext_new X hw opt z) (\<lambda>(ctx, z'). init_threads ctx \<noteq> 0 \<and>
      (fast ctx \<longrightarrow> opt_fast_mode opt))"
    by (auto simp: RandomXContext_new_def Let_def ensures_def max_one_nonzero split: prod.splits option.splits if_splits)
  then show "ensures (RandomXContext_new X hw opt z) (\<lambda>(ctx, z'). mode_ok X ctx \<and> init_threads ctx \<noteq> 0 \<and>
       (cache_for_vm ctx = None) \<noteq> (dataset_for_vm ctx = None) \<and> (fast ctx \<longrightarrow> opt_fast_mode opt))"
    using randomx_library.new_mode [OF assms(1), of hw opt z]
    by (fastforce simp: ensures_def mode_ok_def cache_for_vm_def dataset_for_vm_def)
next
  show "(\<exists>f. RandomXContext_new X hw opt z = Inl f) =
      (case rx_alloc_cache X (initial_flags X opt z) z of (None, z') \<Rightarrow>
          (opt_large_pages opt \<longrightarrow>
             fst (rx_alloc_cache X (without (initial_flags X opt z) (FLAG_LARGE_PAGES X)) z') = None)
       | _ \<Rightarrow> False)"
    by (auto simp: RandomXContext_new_def alloc_cache_def Let_def split: prod.splits option.splits)
next
  show "ensures (ensure_seed X order seed ctx0 z) (\<lambda>(ctx', z'). mode_ok X ctx' \<and>
       cache_for_vm ctx' = cache_for_vm ctx0 \<and> dataset_for_vm ctx' = dataset_for_vm ctx0)"
    using assms(2) by (auto simp: ensure_seed_def ensures_def res_simps mode_ok_def cache_for_vm_def
        dataset_for_vm_def split: option.splits if_splits)
qed

theorem rx_context_mode_witness:
  "randomx_library rx_api (\<lambda>c z. w_keys z c) (\<lambda>d i z. w_items z d i) scripted_rx \<and>
   (case RandomXContext_new rx_api 4 Options_init (rx_world_init False False) of
      Inl _ \<Rightarrow> False
    | Inr (ctx, z') \<Rightarrow> mode_ok rx_api ctx \<and> init_threads ctx = 4 \<and> cache_for_vm ctx = Some 1 \<and>
        (case ensure_seed rx_api (\<lambda>rs. rs) [7] ctx z' of Inl _ \<Rightarrow> False | Inr (ctx', _) \<Rightarrow> mode_ok rx_api ctx'))"
proof -
  let ?z = "rx_world_init False False"
  obtain ctx z' where new: "RandomXContext_new rx_api 4 Options_init ?z = Inr (ctx, z')"
      "init_threads ctx = 4" "cache_for_vm ctx = Some 1" "mode_ok rx_api ctx" "rx_cache ctx = Some 1" "\<not> fast ctx"
    by (auto simp: RandomXContext_new_def alloc_cache_def initial_flags_def rx_api_def rx_world_init_def
        without_def Options_init_def cache_for_vm_def mode_ok_def max_def)
  show ?thesis
    using rx_context_mode [OF rxlib.randomx_library_axioms new(4), of 4 Options_init ?z "\<lambda>rs. rs" "[7]"]
      rxlib.randomx_library_axioms new
    by (auto simp: ensures_def ensure_seed_def)
qed

end
