(* ===== verification/Shares.thy ===== *)
theory Shares
  imports Worker_Safety RandomX
begin

text \<open>
  Where shares come from. The locale \<open>hash_engine\<close> is the contract between the thread pool and its
  engine: the hashers that are in use all compute one function. An invariant of the thread pool over
  that contract follows a job from \<open>set_work\<close> through the copies of the workers to \<open>on_share\<close>: whatever
  the interleaving, every share that is reported belongs to a job that was handed over and carries the
  digest of that job's blob with the reported nonce in place. Both engines of the program keep the contract.
\<close>

section \<open>Jobs, blobs and shares\<close>

text \<open>A job of \<open>G\<close>, apart from the generation that \<open>set_work\<close> writes into its copy.\<close>

definition given :: "MiningJob set \<Rightarrow> MiningJob \<Rightarrow> bool" where
  "given G j = (\<exists>g \<in> G. j = g\<lparr>generation := generation j\<rparr>)"

text \<open>The runs in which \<open>set_work\<close> is called with jobs of \<open>G\<close> only and the engine is keyed with keys of \<open>Ks\<close>.\<close>

definition sets_only :: "MiningJob set \<Rightarrow> 'k set \<Rightarrow> 'k act \<Rightarrow> bool" where
  "sets_only G Ks a =
     (case a of Cmd (Set_begin j) \<Rightarrow> j \<in> G \<and> fitting j | Cmd (Rekey k) \<Rightarrow> k \<in> Ks | _ \<Rightarrow> True)"

text \<open>The blob of a job, with some nonce written into it or not.\<close>

definition blob_of :: "MiningJob \<Rightarrow> bytes \<Rightarrow> bool" where
  "blob_of j bs = (bs = blob j \<or> room j (blob j) \<and> (\<exists>m. bs = with_nonce j (blob j) m))"

definition genuine :: "(bytes \<Rightarrow> bytes) \<Rightarrow> share \<Rightarrow> bool" where
  "genuine f sh = (case sh of (j, n, d) \<Rightarrow>
     room j (blob j) \<and> d = f (with_nonce j (blob j) n) \<and> meets_target d (target j))"

lemma blob_of_room: "blob_of j bs \<Longrightarrow> room j bs \<Longrightarrow> room j (blob j)"
  by (auto simp: blob_of_def)

lemma blob_of_with_nonce: "blob_of j bs \<Longrightarrow> room j bs \<Longrightarrow> with_nonce j bs n = with_nonce j (blob j) n"
  by (auto simp: blob_of_def)

lemma blob_of_update: "blob_of j bs \<Longrightarrow> room j bs \<Longrightarrow> blob_of j (with_nonce j bs n)"
  using blob_of_room [of j bs] blob_of_with_nonce [of j bs n] unfolding blob_of_def by metis

section \<open>The contract of an engine\<close>

text \<open>
  \<open>holds e hs\<close> says that the engine is in order and the hashers \<open>hs\<close>, counted as often as they are in use, are
  sound in it: each computes \<open>f\<close>. Making, destroying and keying with a key of \<open>Ks\<close> keep this.
\<close>

locale hash_engine =
  fixes kn :: "('k, 'e, 'h) kernel"
    and holds :: "'e \<Rightarrow> 'h multiset \<Rightarrow> bool"
    and Ks :: "'k set"
    and f :: "bytes \<Rightarrow> bytes"
  assumes make_holds: "holds e hs \<Longrightarrow> kn_make kn e = Inr (h, e') \<Longrightarrow> holds e' (add_mset h hs)"
    and drop_holds: "holds e (add_mset h hs) \<Longrightarrow> holds (kn_drop kn h e) hs"
    and rekey_holds: "holds e hs \<Longrightarrow> k \<in> Ks \<Longrightarrow> kn_rekey kn k e = Inr e' \<Longrightarrow> holds e' hs"
    and hash_holds: "holds e hs \<Longrightarrow> h \<in># hs \<Longrightarrow> kn_hash kn e h m = f m"

text \<open>The hashers in use.\<close>

definition held_by :: "'h Worker \<Rightarrow> 'h multiset" where
  "held_by v = (case hasher v of None \<Rightarrow> {#} | Some h \<Rightarrow> {#h#})"

definition held :: "'h Worker list \<Rightarrow> 'h multiset" where
  "held vs = sum_mset (image_mset held_by (mset vs))"

lemma held_simps [simp]: "held [] = {#}" "held (v # vs) = held_by v + held vs"
  by (simp_all add: held_def)

lemma held_empty: "\<forall>v \<in> set vs. hasher v = None \<Longrightarrow> held vs = {#}"
  by (induction vs) (auto simp: held_by_def)

lemma held_split: "i < length vs \<Longrightarrow> \<exists>hs. held vs = held_by (vs ! i) + hs \<and> (\<forall>v. held (vs[i := v]) = held_by v + hs)"
proof (induction vs arbitrary: i)
  case (Cons w vs)
  show ?case
  proof (cases i)
    case (Suc i')
    then obtain hs where "held vs = held_by (vs ! i') + hs" "\<forall>v. held (vs[i' := v]) = held_by v + hs"
      using Cons by auto
    then show ?thesis using Suc by (intro exI [of _ "held_by w + hs"]) (simp add: ac_simps)
  qed auto
qed simp

section \<open>The invariant\<close>

definition worker_of :: "MiningJob set \<Rightarrow> 'h Worker \<Rightarrow> bool" where
  "worker_of G v = ((pc v \<in> {Start, Exited} \<longrightarrow> hasher v = None) \<and>
     (\<forall>j. local_job v = Some j \<longrightarrow> given G j \<and> blob_of j (wblob v)))"

lemma given_set_work: "j \<in> G \<Longrightarrow> given G (j\<lparr>generation := g\<rparr>)"
  by (auto simp: given_def)

lemma worker_step_work: "worker_step kn i (e, p, v) = Inr (e', p', v', sh, ns) \<Longrightarrow> work p' = work p"
  by (cases "pc v") (auto simp: worker_step_def bindR_eq_Inr split: option.splits)

lemma reachable_mono:
  "reachable kn ok s0 s \<Longrightarrow> (\<And>a. ok a \<Longrightarrow> ok' a) \<Longrightarrow> reachable kn ok' s0 s"
  by (induction rule: reachable.induct) (auto intro: reachable.intros)

lemma sets_only_fitting: "sets_only G Ks a \<Longrightarrow> fitting_act a"
  by (auto simp: sets_only_def fitting_act_def fitting_cmd_def split: act.splits cmd.splits)

context hash_engine
begin

definition share_inv :: "MiningJob set \<Rightarrow> ('e, 'h) system \<Rightarrow> bool" where
  "share_inv G s =
     (holds (engine_st s) (held (workers s)) \<and> (\<forall>j. work (pool s) = Some j \<longrightarrow> given G j) \<and>
      (\<forall>j. ctl s = Storing j \<longrightarrow> given G j) \<and> (\<forall>v \<in> set (workers s). worker_of G v) \<and>
      (\<forall>sh \<in> set (found s). given G (fst sh) \<and> genuine f sh))"

lemma renew_holds:
  assumes "renew kn old e = Inr (h, e')" "holds e (mset_set (set_option old) + hs)"
  shows "holds e' (add_mset h hs)"
proof -
  obtain e1 where "kn_make kn e = Inr (h, e1)" "e' = (case old of None \<Rightarrow> e1 | Some h' \<Rightarrow> kn_drop kn h' e1)"
    using assms(1) by (auto simp: renew_def bindR_eq_Inr)
  then show ?thesis
    using make_holds [OF assms(2)] drop_holds [of e1 _ "add_mset h hs"]
    by (cases old) (auto simp: add_mset_commute)
qed

lemma held_by_set: "held_by v = mset_set (set_option (hasher v))"
  by (cases "hasher v") (simp_all add: held_by_def)

lemma worker_step_holds:
  assumes "worker_step kn i (e, p, v) = Inr (e', p', v', sh, ns)" "worker_of G v" "holds e (held_by v + hs)"
  shows "holds e' (held_by v' + hs)"
proof -
  consider (start) "pc v = Start" | (make) "pc v = Make_hasher" | (exit) "pc v = Drop_hasher"
    | (other) "pc v \<notin> {Start, Make_hasher, Drop_hasher}" by blast
  then show ?thesis
  proof cases
    case start
    then obtain h where "renew kn None e = Inr (h, e')" "hasher v' = Some h" "hasher v = None"
      using assms(1,2) by (auto simp: worker_step_def bindR_eq_Inr worker_of_def)
    then show ?thesis using renew_holds [of None e h e' hs] assms(3) by (simp add: held_by_def)
  next
    case make
    then obtain h where "renew kn (hasher v) e = Inr (h, e')" "hasher v' = Some h"
      using assms(1) by (auto simp: worker_step_def bindR_eq_Inr)
    then show ?thesis using renew_holds assms(3) by (fastforce simp: held_by_set)
  next
    case exit
    then show ?thesis
      using assms(1,3) drop_holds by (auto simp: worker_step_def held_by_def split: option.splits)
  next
    case other
    then have "e' = e" "hasher v' = hasher v"
      using assms(1) by (cases "pc v"; auto simp: worker_step_def bindR_eq_Inr split: option.splits)+
    then show ?thesis using assms(3) by (simp add: held_by_def)
  qed
qed

text \<open>The chunk is the step that finds shares.\<close>

lemma chunk_shares:
  assumes "blob_of j bs" "room j bs" "chunk g t j bs nn = Inr (bs', nn', d, sh, ns)" "\<And>m. g m = f m"
  shows "blob_of j bs' \<and> (\<forall>x \<in> set sh. fst x = j \<and> genuine f x)"
proof -
  have g: "g = f" using assms(4) by auto
  obtain b ns' where c: "chunk g t j bs nn =
      Inr (b, nn + of_nat (length ns') * t, of_nat (length ns'), shares_of g j bs ns', ns')"
    "b = bs \<or> (\<exists>m. b = with_nonce j bs m)"
    using chunk_spec [OF assms(2), of g t nn] by metis
  then have sh: "sh = shares_of f j bs ns'" and b: "bs' = bs \<or> (\<exists>m. bs' = with_nonce j bs m)"
    using assms(3) g by auto
  have "blob_of j bs'" using b assms(1) blob_of_update [OF assms(1,2)] by blast
  moreover have "genuine f (j, n, f (with_nonce j bs n))"
    if "meets_target (f (with_nonce j bs n)) (target j)" for n
    using that blob_of_room [OF assms(1,2)] blob_of_with_nonce [OF assms(1,2)] by (simp add: genuine_def)
  ultimately show ?thesis by (auto simp: sh shares_of_def)
qed

lemma worker_step_shares:
  assumes "worker_step kn i (e, p, v) = Inr (e', p', v', sh, ns)" "holds e (held_by v + hs)"
    and "worker_of G v" "wf_worker v" "\<And>j. work p = Some j \<Longrightarrow> given G j"
  shows "worker_of G v' \<and> (\<forall>x \<in> set sh. given G (fst x) \<and> genuine f x)"
proof (cases "pc v = Hash_chunk")
  case True
  then obtain h j where hj: "hasher v = Some h" "local_job v = Some j" "room j (wblob v)"
    using assms(4) by (auto simp: wf_worker_def)
  then obtain bs nn d where c: "chunk (kn_hash kn e h) (threads p) j (wblob v) (nonce v) = Inr (bs, nn, d, sh, ns)"
    and v': "v' = v\<lparr>wblob := bs, nonce := nn, hashed := d, pc := Leave\<rparr>"
    using assms(1) True by (auto simp: worker_step_def bindR_eq_Inr)
  have j: "given G j" "blob_of j (wblob v)" using assms(3) hj by (simp_all add: worker_of_def)
  have "kn_hash kn e h m = f m" for m
    using hash_holds [OF assms(2)] hj(1) by (simp add: held_by_def)
  then show ?thesis
    using chunk_shares [OF j(2) hj(3) c] j(1) v' hj by (simp add: worker_of_def)
next
  case False
  then show ?thesis
    using assms(1,3,5)
    by (cases "pc v") (auto simp: worker_step_def worker_of_def blob_of_def bindR_eq_Inr split: option.splits if_splits)
qed

lemma command_shares:
  assumes "share_inv G s" "pool_inv s" "sets_only G Ks (Cmd c)" "command kn c s = Some s'"
  shows "share_inv G s'"
proof (cases c)
  case (Set_begin j)
  then show ?thesis
    using assms(1,3,4) given_set_work by (auto simp: share_inv_def sets_only_def set_work_bump_def split: if_splits)
next
  case Start_pool
  have "worker_of G (Worker_init :: 'h Worker)" "held (replicate n (Worker_init :: 'h Worker)) = {#}" for n
    by (auto simp: worker_of_def Worker_init_def intro!: held_empty)
  moreover have "\<not> running (pool s) \<Longrightarrow> ctl s = Idle \<Longrightarrow> workers s = []" using assms(2) by (simp add: pool_inv_def)
  ultimately show ?thesis
    using Start_pool assms(1,4) by (auto simp: share_inv_def start_def split: if_splits)
next
  case Stop_join
  then have "\<forall>v \<in> set (workers s). hasher v = None"
    using assms(1,4) by (auto simp: share_inv_def worker_of_def split: if_splits)
  then show ?thesis
    using Stop_join assms(1,4) held_empty [of "workers s"] by (auto simp: share_inv_def stop_join_def split: if_splits)
next
  case (Rekey k)
  then show ?thesis
    using assms(1,3,4) rekey_holds by (auto simp: share_inv_def sets_only_def split: if_splits sum.splits)
next
  case Set_end
  then show ?thesis using assms(1,4) by (auto simp: share_inv_def set_work_store_def split: ctl.splits)
qed (use assms(1,4) in \<open>auto simp: share_inv_def stop_begin_def clear_work_bump_def
  clear_work_store_def pause_set_def resume_def rebuild_hashers_def split: if_splits\<close>)

lemma work_shares:
  assumes "share_inv G s" "pool_inv s" "i < length (workers s)" "work_of kn i s = Inr s'"
  shows "share_inv G s'"
proof -
  let ?v = "workers s ! i"
  obtain e' p' v' sh ns where st: "worker_step kn (of_nat i) (engine_st s, pool s, ?v) = Inr (e', p', v', sh, ns)"
    and s': "s' = s\<lparr>pool := p', workers := (workers s)[i := v'], engine_st := e', found := found s @ sh,
      tried := tried s + length ns\<rparr>"
    using assms(4) by (auto simp: work_of_def bindR_eq_Inr)
  have v: "?v \<in> set (workers s)" using assms(3) by simp
  then have wk: "worker_of G ?v" "wf_worker ?v" using assms(1,2) by (auto simp: share_inv_def pool_inv_def)
  obtain hs where hs: "held (workers s) = held_by ?v + hs" "held ((workers s)[i := v']) = held_by v' + hs"
    using held_split [OF assms(3)] by blast
  then have h: "holds (engine_st s) (held_by ?v + hs)" using assms(1) by (simp add: share_inv_def)
  have "worker_of G v' \<and> (\<forall>x \<in> set sh. given G (fst x) \<and> genuine f x)"
    using worker_step_shares [OF st h wk] assms(1) by (simp add: share_inv_def)
  moreover have "holds e' (held ((workers s)[i := v']))" using worker_step_holds [OF st wk(1) h] hs(2) by simp
  moreover have "set ((workers s)[i := v']) \<subseteq> insert v' (set (workers s))" by (rule set_update_subset_insert)
  ultimately show ?thesis using assms(1) worker_step_work [OF st] unfolding s' share_inv_def by auto
qed

lemma reachable_shares:
  assumes "reachable kn (sets_only G Ks) (system_init n low e) s" "holds e {#}"
  shows "share_inv G s"
  using assms(1)
proof (induction rule: reachable.induct)
  case init
  then show ?case using assms(2) by (simp add: share_inv_def system_init_def MinerPool_init_def)
next
  case (step s a s')
  have inv: "pool_inv s"
    using reachable_mono [OF step.hyps(1) sets_only_fitting] by (rule reachable_inv)
  show ?case
  proof (cases a)
    case (Cmd c)
    then show ?thesis using step command_shares [OF step.IH inv] by auto
  next
    case (Work i)
    then show ?thesis
      using step.hyps(3) work_shares [OF step.IH inv] by (auto simp: bindR_eq_Inr split: if_splits)
  qed
qed

lemma reachable_found:
  assumes "reachable kn (sets_only G Ks) (system_init n low e) s" "holds e {#}"
    and "(job, nn, digest) \<in> set (found s)"
  shows "\<exists>g \<in> G. job = g\<lparr>generation := generation job\<rparr> \<and> unat (nonce_offset g) + 4 \<le> length (blob g)
     \<and> digest = f (take (unat (nonce_offset g)) (blob g) @ le32 nn @ drop (unat (nonce_offset g) + 4) (blob g))
     \<and> meets_target digest (target g)"
proof -
  have "given G job" and gen: "genuine f (job, nn, digest)"
    using reachable_shares [OF assms(1,2)] assms(3) by (auto simp: share_inv_def)
  then obtain g where g: "g \<in> G" "job = g\<lparr>generation := generation job\<rparr>" by (auto simp: given_def)
  then have "blob job = blob g" "nonce_offset job = nonce_offset g" "target job = target g"
    by (metis MiningJob.select_convs MiningJob.surjective MiningJob.update_convs(5))+
  with gen g show ?thesis
    by (auto simp: genuine_def room_def with_nonce_def intro!: bexI [of _ g])
qed

end

section \<open>The engines of the program\<close>

text \<open>SHA-256d has no key and no state.\<close>

definition sha256d_kernel :: "(unit, unit, unit) kernel" where
  "sha256d_kernel = \<lparr>kn_name = ''sha256d'', kn_make = (\<lambda>e. Inr ((), e)), kn_drop = (\<lambda>h e. e),
     kn_hash = (\<lambda>e h data. case Sha256dHasher_hash data of Inr d \<Rightarrow> d | Inl f \<Rightarrow> []), kn_rekey = (\<lambda>k e. Inr e)\<rparr>"

interpretation sha256d_engine: hash_engine sha256d_kernel "\<lambda>e hs. True" UNIV dsha
  by unfold_locales (simp_all add: sha256d_kernel_def Sha256dHasher_hash_def)

text \<open>RandomX: the context and the library's world are the engine, a hasher is a virtual machine.\<close>

definition rx_kernel :: "'z randomx_api \<Rightarrow> thread_order \<Rightarrow> (bytes, RandomXContext \<times> 'z, nat) kernel" where
  "rx_kernel X order = \<lparr>
     kn_name = ''randomx'',
     kn_make = (\<lambda>(ctx, z). bindR (RandomXHasher_new X ctx z) (\<lambda>(v, z). Inr (v, ctx, z))),
     kn_drop = (\<lambda>v (ctx, z). (ctx, RandomXHasher_delete X v z)),
     kn_hash = (\<lambda>(ctx, z) v data. RandomXHasher_hash X v data z),
     kn_rekey = (\<lambda>seed (ctx, z). ensure_seed X order seed ctx z)\<rparr>"

definition rx_holds :: "'z randomx_api \<Rightarrow> (nat \<Rightarrow> 'z \<Rightarrow> bytes option) \<Rightarrow> (nat \<Rightarrow> nat \<Rightarrow> 'z \<Rightarrow> bytes option)
    \<Rightarrow> (bytes \<Rightarrow> bytes \<Rightarrow> bytes) \<Rightarrow> ('z \<Rightarrow> nat set) \<Rightarrow> bytes \<Rightarrow> RandomXContext \<times> 'z \<Rightarrow> nat multiset \<Rightarrow> bool" where
  "rx_holds X cache_key item_key rx vms seed e hs = (case e of (ctx, z) \<Rightarrow>
     mode_ok X ctx \<and> seeded ctx \<and> rx_seed ctx = seed \<and> keyed X cache_key item_key seed ctx z \<and>
     (\<forall>v \<in># hs. v \<in> vms z \<and> (\<forall>m. rx_calculate_hash X v m z = rx seed m)) \<and> (\<forall>v. count hs v \<le> 1))"

context randomx_machines
begin

lemma rx_make_holds:
  assumes "rx_holds X cache_key item_key rx vms seed (ctx, z) hs" "RandomXHasher_new X ctx z = Inr (v, z')"
  shows "rx_holds X cache_key item_key rx vms seed (ctx, z') (add_mset v hs)"
proof -
  have mode: "mode_ok X ctx" "keyed X cache_key item_key seed ctx z"
    using assms(1) by (simp_all add: rx_holds_def)
  have vm: "rx_create_vm X (rx_flags ctx) (cache_for_vm ctx) (dataset_for_vm ctx) z = (Some v, z')"
    using assms(2) by (auto simp: RandomXHasher_new_def split: if_splits prod.splits option.splits)
  note keys = create_keys [OF vm] and fresh = create_fresh [OF vm]
  have "keyed X cache_key item_key seed ctx z'" using mode(2) keys by (simp add: keyed_def)
  moreover have "rx_calculate_hash X v m z' = rx seed m" for m
    using hasher_keyed [OF mode assms(2)] by (simp add: RandomXHasher_hash_def)
  moreover have "u \<in> vms z' \<and> (\<forall>m. rx_calculate_hash X u m z' = rx seed m)" if "u \<in># hs" for u
    using that assms(1) fresh create_others [OF vm] by (simp add: rx_holds_def)
  moreover have "v \<notin># hs" using assms(1) fresh by (auto simp: rx_holds_def)
  ultimately show ?thesis using assms(1) fresh by (auto simp: rx_holds_def not_in_iff)
qed

lemma rx_drop_holds:
  assumes "rx_holds X cache_key item_key rx vms seed (ctx, z) (add_mset v hs)"
  shows "rx_holds X cache_key item_key rx vms seed (ctx, rx_destroy_vm X v z) hs"
proof -
  have c: "count (add_mset v hs) u \<le> 1" for u using assms by (simp add: rx_holds_def)
  have "v \<notin># hs" using c [of v] by (simp add: not_in_iff)
  then have "u \<noteq> v" if "u \<in># hs" for u using that by auto
  moreover have "count hs u \<le> 1" for u using c [of u] by (simp split: if_splits)
  ultimately show ?thesis
    using assms by (auto simp: rx_holds_def keyed_def destroy_keys destroy_vms destroy_others)
qed

text \<open>As long as the seed does not change, the RandomX engine computes RandomX under it.\<close>

lemma rx_engine:
  "hash_engine (rx_kernel X order) (rx_holds X cache_key item_key rx vms seed) {seed} (rx seed)"
proof unfold_locales
  fix e hs h e'
  assume "rx_holds X cache_key item_key rx vms seed e hs" "kn_make (rx_kernel X order) e = Inr (h, e')"
  then show "rx_holds X cache_key item_key rx vms seed e' (add_mset h hs)"
    using rx_make_holds by (cases e) (auto simp: rx_kernel_def bindR_eq_Inr)
next
  fix e h hs
  assume "rx_holds X cache_key item_key rx vms seed e (add_mset h hs)"
  then show "rx_holds X cache_key item_key rx vms seed (kn_drop (rx_kernel X order) h e) hs"
    using rx_drop_holds by (cases e) (auto simp: rx_kernel_def RandomXHasher_delete_def)
next
  fix e hs k e'
  assume "rx_holds X cache_key item_key rx vms seed e hs" "k \<in> {seed}" "kn_rekey (rx_kernel X order) k e = Inr e'"
  then show "rx_holds X cache_key item_key rx vms seed e' hs"
    by (cases e) (auto simp: rx_kernel_def ensure_seed_def rx_holds_def)
next
  fix e hs h m
  assume "rx_holds X cache_key item_key rx vms seed e hs" "h \<in># hs"
  then show "kn_hash (rx_kernel X order) e h m = rx seed m"
    by (cases e) (auto simp: rx_kernel_def RandomXHasher_hash_def rx_holds_def)
qed

lemma rx_ready:
  assumes "RandomXContext_new X hw opt z = Inr (ctx, z1)" "\<And>rs. mset (order rs) = mset rs"
  shows "\<exists>ctx' z'. ensure_seed X order seed ctx z1 = Inr (ctx', z') \<and>
     rx_holds X cache_key item_key rx vms seed (ctx', z') {#}"
proof -
  have "mode_ok X ctx" "\<not> seeded ctx" using ensuresD [OF new_mode assms(1)] by simp_all
  then show ?thesis using ensure_seed_keyed [of ctx z1 order seed] assms(2) by (auto simp: rx_holds_def)
qed

end

interpretation rx_engine: hash_engine "rx_kernel rx_api order"
  "rx_holds rx_api (\<lambda>c z. w_keys z c) (\<lambda>d i z. w_items z d i) scripted_rx
     (\<lambda>z. {v. v < w_handle z \<and> w_vms z v \<noteq> None}) seed" "{seed}" "scripted_rx seed"
  by (rule rxvms.rx_engine)

section \<open>Runs that find shares\<close>

text \<open>A run in which one worker takes a job to its first chunk; with a target every digest meets it finds shares.\<close>

definition share_run :: "MiningJob \<Rightarrow> 'k act list" where
  "share_run g = [Cmd (Set_begin g), Cmd Set_end, Cmd Start_pool] @ replicate 11 (Work 0)"

lemma share_run_finds:
  assumes "room g (blob g)" "fitting g" "kn_make kn e = Inr (h, e')"
    and "\<And>n. meets_target (kn_hash kn e' h (with_nonce g (blob g) n)) (target g)"
  obtains s where "reachable kn (sets_only {g} Ks) (system_init 1 False e) s" "found s \<noteq> []"
proof -
  let ?g = "g\<lparr>generation := 1\<rparr>" and ?f = "kn_hash kn e' h"
  have g: "room ?g (blob g)" "with_nonce ?g bs n = with_nonce g bs n" for bs n
    using assms(1) by (simp_all add: room_def with_nonce_def)
  obtain bs ns where c: "chunk ?f 1 ?g (blob g) 0 =
      Inr (bs, 0 + of_nat (length ns) * 1, of_nat (length ns), shares_of ?f ?g (blob g) ns, ns)"
    "0 < length ns"
    using chunk_spec [OF g(1), of ?f 1 0] by metis
  have "\<not> length (blob g) < unat (nonce_offset g + 4)"
    using assms(1,2) by (simp add: room_def fitting_def unat_word_ariths)
  moreover have "shares_of ?f ?g (blob g) ns \<noteq> []"
    using c(2) assms(4) g(2) by (simp add: shares_of_def)
  ultimately obtain s where s: "run kn (share_run g) (system_init 1 False e) = Some s" "found s \<noteq> []"
    using c(1) assms(3) by (simp add: share_run_def demo_simps numeral_eq_Suc)
  moreover have "\<forall>a \<in> set (share_run g). sets_only {g} Ks a"
    using assms(2) by (simp add: share_run_def sets_only_def)
  ultimately show thesis using that run_reachable [OF s(1)] reachable.init by blast
qed

text \<open>The scripted library, set up and keyed, with its first machine.\<close>

abbreviation scripted_holds :: "bytes \<Rightarrow> RandomXContext \<times> rx_world \<Rightarrow> nat multiset \<Rightarrow> bool" where
  "scripted_holds \<equiv> rx_holds rx_api (\<lambda>c z. w_keys z c) (\<lambda>d i z. w_items z d i) scripted_rx
     (\<lambda>z. {v. v < w_handle z \<and> w_vms z v \<noteq> None})"

lemma scripted_engine:
  obtains ctx z e v e' where
    "RandomXContext_new rx_api 2 Options_init (rx_world_init False False) = Inr (ctx, z)"
    "ensure_seed rx_api (\<lambda>rs. rs) seed ctx z = Inr e" "scripted_holds seed e {#}"
    "kn_make (rx_kernel rx_api (\<lambda>rs. rs)) e = Inr (v, e')"
    "\<forall>m. kn_hash (rx_kernel rx_api (\<lambda>rs. rs)) e' v m = scripted_rx seed m"
proof -
  let ?kn = "rx_kernel rx_api (\<lambda>rs. rs)"
  obtain ctx z where new: "RandomXContext_new rx_api 2 Options_init (rx_world_init False False) = Inr (ctx, z)"
    by (simp add: RandomXContext_new_def rx_api_def Options_init_def rx_world_init_def alloc_cache_def initial_flags_def)
  obtain c' z' where k: "ensure_seed rx_api (\<lambda>rs. rs) seed ctx z = Inr (c', z')" and h: "scripted_holds seed (c', z') {#}"
    using rxvms.rx_ready [OF new, of "\<lambda>rs. rs" seed] by auto
  have "seeded c'" using h by (simp add: rx_holds_def)
  moreover have "\<exists>v z2. rx_create_vm rx_api (rx_flags c') (cache_for_vm c') (dataset_for_vm c') z' = (Some v, z2)"
    by (simp add: rx_api_def)
  ultimately obtain v e where mk: "kn_make ?kn (c', z') = Inr (v, e)"
    by (auto simp: rx_kernel_def RandomXHasher_new_def)
  have "kn_hash ?kn e v m = scripted_rx seed m" for m
    using rx_engine.hash_holds [OF rx_engine.make_holds [OF h mk], of v _ m] by simp
  with that new k h mk show thesis by blast
qed

section \<open>Properties\<close>

text \<open>
  C6: Every share is genuine. Let the engine keep its contract, as both engines of the program do: the hashers in
  use compute one function \<open>f\<close>. Whatever the interleaving of the workers with calls that set, clear
  and replace the work, pause, renew the hashers, key the engine with the same seed and stop, each share ever
  reported belongs to a job that was handed to \<open>set_work\<close>, unchanged but for its generation; its digest
  is \<open>f\<close> of that job's blob with the four bytes of the reported nonce at the nonce offset, and it meets
  that job's target.
\<close>

theorem shares_genuine:
  assumes "hash_engine kn holds Ks f" "holds e {#}"
    and "reachable kn (sets_only G Ks) (system_init n low e) s" "(job, nn, digest) \<in> set (found s)"
  shows "\<exists>g \<in> G. job = g\<lparr>generation := generation job\<rparr> \<and> unat (nonce_offset g) + 4 \<le> length (blob g)
     \<and> digest = f (take (unat (nonce_offset g)) (blob g) @ le32 nn @ drop (unat (nonce_offset g) + 4) (blob g))
     \<and> meets_target digest (target g)"
  using assms(3,2,4) by (rule hash_engine.reachable_found [OF assms(1)])

theorem shares_genuine_witness:
  "\<exists>e s job nn digest. reachable (rx_kernel rx_api (\<lambda>rs. rs)) (sets_only {(demo_job ''j'')\<lparr>target := ones256\<rparr>} {[7]})
       (system_init 1 False e) s
     \<and> (job, nn, digest) \<in> set (found s) \<and> job_id job = ''j''
     \<and> digest = scripted_rx [7] (replicate 76 0 @ le32 nn)"
proof -
  let ?g = "(demo_job ''j'')\<lparr>target := ones256\<rparr>" and ?kn = "rx_kernel rx_api (\<lambda>rs. rs)"
  obtain ctx z e v e' where e: "RandomXContext_new rx_api 2 Options_init (rx_world_init False False) = Inr (ctx, z)"
    "ensure_seed rx_api (\<lambda>rs. rs) [7] ctx z = Inr e" "scripted_holds [7] e {#}"
    "kn_make ?kn e = Inr (v, e')" "\<forall>m. kn_hash ?kn e' v m = scripted_rx [7] m"
    by (rule scripted_engine [where seed = "[7]"])
  have "room ?g (blob ?g)" "fitting ?g" by (simp_all add: demo_job_def room_def fitting_def)
  moreover have "meets_target (kn_hash ?kn e' v m) (target ?g)" for m
    using ones256_max [of "scripted_rx [7] m"] by (simp add: e(5) meets_target_value scripted_rx_def)
  ultimately obtain s where r: "reachable ?kn (sets_only {?g} {[7]}) (system_init 1 False e) s" and "found s \<noteq> []"
    by (rule share_run_finds [OF _ _ e(4)])
  then obtain job nn digest where sh: "(job, nn, digest) \<in> set (found s)" by (cases "found s") auto
  from shares_genuine [OF rxvms.rx_engine e(3) r sh]
  have "job = ?g\<lparr>generation := generation job\<rparr>" "digest = scripted_rx [7] (replicate 76 0 @ le32 nn)"
    by (simp_all add: demo_job_def)
  moreover from this(1) have "job_id job = ''j''" by (rule ssubst) (simp add: demo_job_def)
  ultimately show ?thesis using r sh by blast
qed

end
