(* ===== verification/Tcp.thy ===== *)
theory Tcp
  imports Prelude "HOL-Library.Signed_Division"
begin

text \<open>
  The line-oriented TCP client of \<open>src/net/tcp_client.cpp\<close> (the POSIX build). The socket calls of
  the operating system are a parameter, a record of functions over an arbitrary state \<open>'o\<close> of the
  outside world; a call that breaks its contract (more bytes written or delivered than asked)
  makes the client's behaviour undefined. The lemmas show that both loops end, that \<open>send_all\<close>
  hands over the whole buffer or a prefix of it, and that \<open>read_line\<close> cuts the received stream
  into its lines however the stream was delivered.
\<close>

section \<open>Definitions\<close>

text \<open>The calls of the operating system; \<open>'a\<close> is an entry of the address list.\<close>

record ('o, 'a) os_api =
  os_getaddrinfo :: "string \<Rightarrow> string \<Rightarrow> 'o \<Rightarrow> 'a list option \<times> 'o"
  os_socket :: "'a \<Rightarrow> 'o \<Rightarrow> i32 \<times> 'o"
  os_connect :: "i32 \<Rightarrow> 'a \<Rightarrow> 'o \<Rightarrow> int \<times> 'o"
  os_close :: "i32 \<Rightarrow> 'o \<Rightarrow> 'o"
  os_setsockopt :: "i32 \<Rightarrow> int \<times> int \<Rightarrow> 'o \<Rightarrow> 'o"  \<comment> \<open>\<open>SO_RCVTIMEO\<close>: seconds, microseconds\<close>
  os_send :: "i32 \<Rightarrow> string \<Rightarrow> 'o \<Rightarrow> int \<times> 'o"
  os_recv :: "i32 \<Rightarrow> nat \<Rightarrow> 'o \<Rightarrow> string option \<times> 'o"  \<comment> \<open>\<open>None\<close> is a result below 0\<close>
  os_now :: "'o \<Rightarrow> int \<times> 'o"                       \<comment> \<open>\<open>steady_clock::now\<close>, in nanoseconds\<close>

record TcpClient =
  sock :: i32
  rx :: string

definition kInvalid :: i32 where
  "kInvalid = - 1"

definition TcpClient_init :: TcpClient where
  "TcpClient_init = \<lparr>sock = kInvalid, rx = []\<rparr>"

definition set_recv_timeout :: "('o, 'a) os_api \<Rightarrow> i32 \<Rightarrow> i32 \<Rightarrow> 'o \<Rightarrow> 'o" where
  "set_recv_timeout S s ms w =
     os_setsockopt S s (sint ms sdiv 1000, (sint ms smod 1000) * 1000) w"

definition is_open :: "TcpClient \<Rightarrow> bool" where
  "is_open c = (sock c \<noteq> kInvalid)"

definition close :: "('o, 'a) os_api \<Rightarrow> TcpClient \<Rightarrow> 'o \<Rightarrow> TcpClient \<times> 'o" where
  "close S c w =
     (let (c, w) = (if sock c \<noteq> kInvalid then (c\<lparr>sock := kInvalid\<rparr>, os_close S (sock c) w) else (c, w))
      in (c\<lparr>rx := []\<rparr>, w))"

fun connect_loop :: "('o, 'a) os_api \<Rightarrow> 'a list \<Rightarrow> 'o \<Rightarrow> i32 \<times> 'o" where
  "connect_loop S [] w = (kInvalid, w)"
| "connect_loop S (ai # ais) w =
     (let (s, w) = os_socket S ai w in
      if s = kInvalid then connect_loop S ais w
      else let (r, w) = os_connect S s ai w in
        if r = 0 then (s, w) else connect_loop S ais (os_close S s w))"

definition connect :: "('o, 'a) os_api \<Rightarrow> TcpClient \<Rightarrow> string \<Rightarrow> u16 \<Rightarrow> i32 \<Rightarrow> 'o \<Rightarrow> bool \<times> TcpClient \<times> 'o" where
  "connect S c host port timeout_ms w =
     (let (c, w) = close S c w;
          (res, w) = os_getaddrinfo S (c_str host) (to_string (unat port)) w
      in case res of
           None \<Rightarrow> (False, c, w)
         | Some [] \<Rightarrow> (False, c, w)
         | Some ais \<Rightarrow>
             (let (s, w) = connect_loop S ais w in
              if s = kInvalid then (False, c, w)
              else (True, c\<lparr>sock := s\<rparr>, set_recv_timeout S s timeout_ms w)))"

text \<open>The loop of \<open>send_all\<close>; \<open>p\<close> is what is left of the buffer.\<close>

function send_loop :: "('o, 'a) os_api \<Rightarrow> i32 \<Rightarrow> string \<Rightarrow> 'o \<Rightarrow> (bool \<times> 'o) res" where
  "send_loop S s p w =
     (if p = [] then Inr (True, w)
      else case os_send S s p w of (n, w') \<Rightarrow>
        if n \<le> 0 then Inr (False, w')
        else if nat n > length p then Inl Undefined
        else send_loop S s (drop (nat n) p) w')"
  by pat_completeness auto
termination
  by (relation "measure (\<lambda>(S, s, p, w). length p)") auto

declare send_loop.simps [simp del]

definition send_all :: "('o, 'a) os_api \<Rightarrow> TcpClient \<Rightarrow> string \<Rightarrow> 'o \<Rightarrow> (bool \<times> 'o) res" where
  "send_all S c data w = (if sock c = kInvalid then Inr (False, w) else send_loop S (sock c) data w)"

fun find_char :: "char \<Rightarrow> string \<Rightarrow> nat option" where
  "find_char c [] = None"
| "find_char c (d # ds) = (if d = c then Some 0 else map_option Suc (find_char c ds))"

abbreviation newline :: char where
  "newline \<equiv> CHR 0x0A"

abbreviation carriage_return :: char where
  "carriage_return \<equiv> CHR 0x0D"

definition strip_cr :: "string \<Rightarrow> string" where
  "strip_cr out = (if out \<noteq> [] \<and> last out = carriage_return then butlast out else out)"

text \<open>
  The loop of \<open>read_line\<close>: the result is the returned flag, the final value of \<open>out\<close> (\<open>None\<close>
  when it was not assigned), \<open>rx_\<close> and the world.
\<close>

function read_loop :: "('o, 'a) os_api \<Rightarrow> i32 \<Rightarrow> string \<Rightarrow> 'o \<Rightarrow> (string option \<times> string \<times> 'o) res" where
  "read_loop S s buf w =
     (case find_char newline buf of
        Some nl \<Rightarrow> Inr (Some (strip_cr (take nl buf)), drop (nl + 1) buf, w)
      | None \<Rightarrow>
          (case os_recv S s 4096 w of
             (None, w') \<Rightarrow> Inr (None, buf, w')
           | (Some bs, w') \<Rightarrow>
               if bs = [] then Inr (None, buf, w')
               else if length bs > 4096 then Inl Undefined
               else if length (buf @ bs) > 2 ^ 20 then Inr (None, buf @ bs, w')
               else read_loop S s (buf @ bs) w'))"
  by pat_completeness auto
termination
proof (relation "measure (\<lambda>(S, s, buf, w). 2 ^ 20 - length buf)", goal_cases)
  case (2 S s buf w r w' bs)
  then have "0 < length bs" "length buf + length bs \<le> 2 ^ 20" by auto
  then show ?case by (cases bs) auto
qed simp

declare read_loop.simps [simp del]

definition read_line :: "('o, 'a) os_api \<Rightarrow> TcpClient \<Rightarrow> i32 \<Rightarrow> 'o \<Rightarrow> (string option \<times> TcpClient \<times> 'o) res" where
  "read_line S c timeout_ms w =
     (if sock c = kInvalid then Inr (None, c, w)
      else bindR (read_loop S (sock c) (rx c) (set_recv_timeout S (sock c) timeout_ms w))
        (\<lambda>(out, rx', w'). Inr (out, c\<lparr>rx := rx'\<rparr>, w')))"

section \<open>Connections\<close>

lemma close_closed: "close S c w = (c', w') \<Longrightarrow> c' = \<lparr>sock = kInvalid, rx = []\<rparr>"
  by (cases c) (auto simp: close_def split: if_splits)

lemma read_line_sock: "read_line S c t w = Inr (r, c', w') \<Longrightarrow> sock c' = sock c"
  by (auto simp: read_line_def res_simps split: if_splits)

lemma connect_open: "connect S c host port t w = (ok, c', w') \<Longrightarrow> is_open c' = ok \<and> rx c' = []"
  by (cases "close S c w")
    (auto simp: connect_def is_open_def dest: close_closed
      split: prod.splits option.splits list.splits if_splits)

section \<open>Lines of a stream\<close>

lemma find_char_Some:
  "find_char c s = Some n \<Longrightarrow> s = take n s @ c # drop (n + 1) s \<and> c \<notin> set (take n s)"
  by (induction s arbitrary: n) (auto split: if_splits)

lemma find_char_None: "(find_char c s = None) = (c \<notin> set s)"
  by (induction s) auto

text \<open>What a socket owes its user, with the bytes each direction has carried so far.\<close>

locale sockets =
  fixes S :: "('o, 'a) os_api"
    and sent rcvd :: "i32 \<Rightarrow> 'o \<Rightarrow> string"
  assumes send_bound: "os_send S s p w = (n, w') \<Longrightarrow> n \<le> int (length p)"
    and send_sent: "os_send S s p w = (n, w') \<Longrightarrow> sent s w' = sent s w @ take (nat n) p"
    and recv_bound: "os_recv S s k w = (Some bs, w') \<Longrightarrow> length bs \<le> k"
    and recv_rcvd: "os_recv S s k w = (r, w') \<Longrightarrow> rcvd s w' = rcvd s w @ (case r of None \<Rightarrow> [] | Some bs \<Rightarrow> bs)"
    and setsockopt_rcvd: "rcvd s (os_setsockopt S s t w) = rcvd s w"
begin

lemma send_loop_sends:
  "\<exists>ok w' part. send_loop S s p w = Inr (ok, w') \<and> sent s w' = sent s w @ part
     \<and> (if ok then part = p else \<exists>k < length p. part = take k p)"
proof (induction "length p" arbitrary: p w rule: less_induct)
  case less
  obtain n w1 where sn: "os_send S s p w = (n, w1)" by (metis surj_pair)
  note b = send_bound [OF sn] send_sent [OF sn]
  consider "p = []" | "p \<noteq> []" "n \<le> 0" | "p \<noteq> []" "0 < n" by linarith
  then show ?case
  proof cases
    case 3
    obtain ok w' rest where ih: "send_loop S s (drop (nat n) p) w1 = Inr (ok, w')"
      "sent s w' = sent s w1 @ rest"
      "if ok then rest = drop (nat n) p else \<exists>k < length (drop (nat n) p). rest = take k (drop (nat n) p)"
      using less.hyps [of "drop (nat n) p" w1] 3 by auto
    have "send_loop S s p w = Inr (ok, w')"
      using 3 sn b ih(1) by (subst send_loop.simps) auto
    moreover have "if ok then take (nat n) p @ rest = p
        else \<exists>k < length p. take (nat n) p @ rest = take k p"
    proof (cases ok)
      case False
      with ih(3) obtain k where "k < length (drop (nat n) p)" "rest = take k (drop (nat n) p)" by auto
      then have "nat n + k < length p \<and> take (nat n) p @ rest = take (nat n + k) p"
        by (simp add: take_add)
      with False show ?thesis by auto
    qed (use ih(3) in simp)
    ultimately show ?thesis using ih(2) b(2) by auto
  next
    case 1
    then have "send_loop S s p w = Inr (True, w)" by (simp add: send_loop.simps)
    with 1 show ?thesis by auto
  next
    case 2
    then have "send_loop S s p w = Inr (False, w1)" "sent s w1 = sent s w @ take 0 p" "0 < length p"
      using sn b by (simp_all add: send_loop.simps)
    then show ?thesis by (intro exI [of _ False] exI [of _ w1] exI [of _ "take 0 p"]) auto
  qed
qed

lemma send_all_result:
  "\<exists>ok w' part. send_all S c data w = Inr (ok, w') \<and> sent (sock c) w' = sent (sock c) w @ part
     \<and> (if ok then is_open c \<and> part = data
        else if is_open c then \<exists>k < length data. part = take k data else part = [])"
proof (cases "is_open c")
  case True
  obtain ok w' part where "send_loop S (sock c) data w = Inr (ok, w')"
    "sent (sock c) w' = sent (sock c) w @ part" "if ok then part = data else \<exists>k < length data. part = take k data"
    using send_loop_sends [of "sock c" data w] by blast
  with True show ?thesis
    by (intro exI [of _ ok] exI [of _ w'] exI [of _ part]) (auto simp: send_all_def is_open_def)
qed (auto simp: send_all_def is_open_def)

lemma read_loop_line:
  "\<exists>r buf' w' new. read_loop S s buf w = Inr (r, buf', w') \<and> rcvd s w' = rcvd s w @ new
     \<and> (case r of
           None \<Rightarrow> buf' = buf @ new
         | Some line \<Rightarrow> \<exists>raw. buf @ new = raw @ newline # buf' \<and> newline \<notin> set raw \<and> line = strip_cr raw)"
proof (induction "2 ^ 20 - length buf" arbitrary: buf w rule: less_induct)
  case less
  obtain r1 w1 where rv: "os_recv S s 4096 w = (r1, w1)" by (metis surj_pair)
  note b = recv_rcvd [OF rv]
  note simps = read_loop.simps [of S s buf w]
  show ?case
  proof (cases "find_char newline buf")
    case (Some nl)
    then have "read_loop S s buf w = Inr (Some (strip_cr (take nl buf)), drop (nl + 1) buf, w)"
      using simps by simp
    with find_char_Some [OF Some] show ?thesis by auto
  next
    case nl: None
    show ?thesis
    proof (cases "r1 = None \<or> r1 = Some [] \<or> 2 ^ 20 < length (buf @ the r1)")
      case True
      have "\<not> 4096 < length bs" if "r1 = Some bs" for bs
        using recv_bound that rv by fastforce
      with True nl rv b simps show ?thesis
        by (cases r1) auto
    next
      case False
      then obtain bs where bs: "r1 = Some bs" "bs \<noteq> []" "length (buf @ bs) \<le> 2 ^ 20"
        by (cases r1) auto
      have "length bs \<le> 4096" using recv_bound rv bs by simp
      then have go: "read_loop S s buf w = read_loop S s (buf @ bs) w1"
        using simps nl rv bs by simp
      have "2 ^ 20 - length (buf @ bs) < 2 ^ 20 - length buf"
        using bs by (cases bs) auto
      from less.hyps [OF this, of w1] go b bs(1) show ?thesis
        by (auto split: option.splits)
    qed
  qed
qed

lemma read_line_stream:
  assumes "is_open c"
  shows "\<exists>r c' w' new. read_line S c t w = Inr (r, c', w') \<and> sock c' = sock c
     \<and> rcvd (sock c) w' = rcvd (sock c) w @ new
     \<and> (case r of
           None \<Rightarrow> rx c' = rx c @ new
         | Some line \<Rightarrow> \<exists>raw. rx c @ new = raw @ newline # rx c' \<and> newline \<notin> set raw \<and> line = strip_cr raw)"
proof -
  obtain r buf' w' new where
    "read_loop S (sock c) (rx c) (set_recv_timeout S (sock c) t w) = Inr (r, buf', w')"
    "rcvd (sock c) w' = rcvd (sock c) w @ new"
    "case r of None \<Rightarrow> buf' = rx c @ new
      | Some line \<Rightarrow> \<exists>raw. rx c @ new = raw @ newline # buf' \<and> newline \<notin> set raw \<and> line = strip_cr raw"
    using read_loop_line [of "sock c" "rx c" "set_recv_timeout S (sock c) t w"]
    by (auto simp: set_recv_timeout_def setsockopt_rcvd)
  then show ?thesis
    using assms by (cases r) (auto simp: read_line_def is_open_def)
qed

end

text \<open>Up to \<open>n\<close> successive calls of \<open>read_line\<close>, until one returns false.\<close>

fun read_lines :: "('o, 'a) os_api \<Rightarrow> nat \<Rightarrow> TcpClient \<Rightarrow> i32 \<Rightarrow> 'o \<Rightarrow> (string list \<times> TcpClient \<times> 'o) res" where
  "read_lines S 0 c t w = Inr ([], c, w)"
| "read_lines S (Suc n) c t w =
     bindR (read_line S c t w) (\<lambda>(r, c', w').
       case r of
         None \<Rightarrow> Inr ([], c', w')
       | Some l \<Rightarrow> bindR (read_lines S n c' t w') (\<lambda>(ls, c'', w''). Inr (l # ls, c'', w'')))"

context sockets
begin

lemma read_lines_stream:
  "is_open c \<Longrightarrow>
   \<exists>raws c' w' new. read_lines S n c t w = Inr (map strip_cr raws, c', w')
     \<and> sock c' = sock c \<and> rcvd (sock c) w' = rcvd (sock c) w @ new
     \<and> rx c @ new = concat (map (\<lambda>l. l @ [newline]) raws) @ rx c'
     \<and> (\<forall>l \<in> set raws. newline \<notin> set l)"
proof (induction n arbitrary: c w)
  case 0
  then show ?case by simp
next
  case (Suc n)
  obtain r c1 w1 new where r: "read_line S c t w = Inr (r, c1, w1)" "sock c1 = sock c"
     "rcvd (sock c) w1 = rcvd (sock c) w @ new"
     "case r of None \<Rightarrow> rx c1 = rx c @ new
      | Some line \<Rightarrow> \<exists>raw. rx c @ new = raw @ newline # rx c1 \<and> newline \<notin> set raw \<and> line = strip_cr raw"
    using read_line_stream [OF Suc.prems] by blast
  show ?case
  proof (cases r)
    case None
    with r show ?thesis by auto
  next
    case (Some l)
    with r(4) obtain raw where raw: "rx c @ new = raw @ newline # rx c1" "newline \<notin> set raw"
      "l = strip_cr raw" by auto
    have "is_open c1" using Suc.prems r(2) by (simp add: is_open_def)
    from Suc.IH [OF this, of w1] r(2) obtain raws c2 w2 new2 where
      ih: "read_lines S n c1 t w1 = Inr (map strip_cr raws, c2, w2)" "sock c2 = sock c"
        "rcvd (sock c) w2 = rcvd (sock c) w1 @ new2"
        "rx c1 @ new2 = concat (map (\<lambda>l. l @ [newline]) raws) @ rx c2"
        "\<forall>l \<in> set raws. newline \<notin> set l" by auto
    have "read_lines S (Suc n) c t w = Inr (map strip_cr (raw # raws), c2, w2)"
      using r(1) Some ih(1) raw(3) by simp
    moreover have "rx c @ (new @ new2) = concat (map (\<lambda>l. l @ [newline]) (raw # raws)) @ rx c2"
      using arg_cong [OF raw(1), of "\<lambda>s. s @ new2"] ih(4) by simp
    ultimately show ?thesis
      using ih(2,3,5) r(3) raw(2) by (intro exI [of _ "raw # raws"] exI [of _ c2] exI [of _ w2] exI [of _ "new @ new2"]) simp
  qed
qed

end

section \<open>Descriptors\<close>

text \<open>The descriptors the process holds, and which calls change them.\<close>

locale descriptors =
  fixes S :: "('o, 'a) os_api"
    and live :: "'o \<Rightarrow> i32 set"
  assumes socket_live: "os_socket S ai w = (s, w') \<Longrightarrow>
        s \<notin> live w \<and> live w' = (if s = kInvalid then live w else insert s (live w))"
    and close_live: "live (os_close S s w) = live w - {s}"
    and connect_live: "os_connect S s ai w = (r, w') \<Longrightarrow> live w' = live w"
    and getaddrinfo_live: "os_getaddrinfo S h p w = (res, w') \<Longrightarrow> live w' = live w"
    and setsockopt_live: "live (os_setsockopt S s t w) = live w"
begin

lemma connect_loop_live:
  "connect_loop S ais w = (s, w') \<Longrightarrow>
     live w' = (if s = kInvalid then live w else insert s (live w))"
proof (induction ais arbitrary: w)
  case Nil
  then show ?case by simp
next
  case (Cons ai ais)
  obtain s1 w1 where s1: "os_socket S ai w = (s1, w1)" by (metis surj_pair)
  obtain r w2 where r: "os_connect S s1 ai w1 = (r, w2)" by (metis surj_pair)
  note l = socket_live [OF s1] connect_live [OF r]
  consider "s1 = kInvalid" | "s1 \<noteq> kInvalid" "r = 0" | "s1 \<noteq> kInvalid" "r \<noteq> 0" by blast
  then show ?case
  proof cases
    case 1
    then show ?thesis using Cons s1 l by simp
  next
    case 2
    then show ?thesis using Cons.prems s1 r l by simp
  next
    case 3
    then have "connect_loop S ais (os_close S s1 w2) = (s, w')" "live (os_close S s1 w2) = live w"
      using Cons.prems s1 r l close_live [of s1 w2] by auto
    with Cons.IH [of "os_close S s1 w2"] show ?thesis by simp
  qed
qed

lemma connect_descriptors:
  assumes "connect S c host port t w = (ok, c', w')"
  shows "live w' = (live w - (if is_open c then {sock c} else {})) \<union> (if ok then {sock c'} else {})"
proof -
  obtain c1 w1 where c1: "close S c w = (c1, w1)" by (metis surj_pair)
  obtain res w2 where res: "os_getaddrinfo S (c_str host) (to_string (unat port)) w1 = (res, w2)"
    by (metis surj_pair)
  have "live w1 = live w - (if is_open c then {sock c} else {})"
    using c1 by (auto simp: close_def is_open_def close_live split: if_splits)
  then have w2: "live w2 = live w - (if is_open c then {sock c} else {})"
    using getaddrinfo_live [OF res] by simp
  consider "res = None \<or> res = Some []" | ai ais where "res = Some (ai # ais)"
    by (metis list.exhaust option.exhaust)
  then show ?thesis
  proof cases
    case 1
    then have "\<not> ok" "w' = w2" using assms c1 res by (auto simp: connect_def)
    with w2 show ?thesis by simp
  next
    case 2
    obtain s w3 where s: "connect_loop S (ai # ais) w2 = (s, w3)" by (metis surj_pair)
    have "(if s = kInvalid then (False, c1, w3)
       else (True, c1\<lparr>sock := s\<rparr>, set_recv_timeout S s t w3)) = (ok, c', w')"
      using assms c1 res 2 s by (simp add: connect_def del: connect_loop.simps)
    with connect_loop_live [OF s] w2 show ?thesis
      by (auto simp: set_recv_timeout_def setsockopt_live split: if_splits)
  qed
qed

end

section \<open>A scripted network\<close>

text \<open>
  A world for concrete runs: it delivers a list of chunks (an empty one is the end of the
  stream), accepts at most \<open>cap\<close> bytes a call, records what it was sent, and has one descriptor to give.
\<close>

record net =
  inbox :: "string list"
  delivered :: string
  outbox :: string
  cap :: nat
  clock :: int
  fds :: "i32 list"

definition net_api :: "('z net_scheme, unit) os_api" where
  "net_api = \<lparr>
     os_getaddrinfo = (\<lambda>host port w. (Some [()], w)),
     os_socket = (\<lambda>ai w. if 3 \<in> set (fds w) then (kInvalid, w) else (3, w\<lparr>fds := 3 # fds w\<rparr>)),
     os_connect = (\<lambda>s ai w. (0, w)),
     os_close = (\<lambda>s w. w\<lparr>fds := removeAll s (fds w)\<rparr>),
     os_setsockopt = (\<lambda>s t w. w),
     os_send = (\<lambda>s p w. let n = min (cap w) (length p) in (int n, w\<lparr>outbox := outbox w @ take n p\<rparr>)),
     os_recv = (\<lambda>s k w. case inbox w of
         [] \<Rightarrow> (None, w)
       | b # bs \<Rightarrow> (Some (take k b), w\<lparr>inbox := (if length b \<le> k then bs else drop k b # bs),
                                        delivered := delivered w @ take k b\<rparr>)),
     os_now = (\<lambda>w. (clock w, w\<lparr>clock := clock w + 1\<rparr>))\<rparr>"

interpretation net: sockets "net_api :: ('z net_scheme, unit) os_api" "\<lambda>s. outbox" "\<lambda>s. delivered"
  by unfold_locales (auto simp: net_api_def Let_def split: list.splits)

interpretation net_fds: descriptors "net_api :: ('z net_scheme, unit) os_api" "\<lambda>w. set (fds w) - {kInvalid}"
  by unfold_locales (auto simp: net_api_def kInvalid_def split: if_splits)

section \<open>Properties\<close>

text \<open>
  C13: Receiving. On an open connection \<open>read_line\<close> always returns; however the network cuts the
  byte stream, successive calls return the lines of the stream in order, each once, without
  the newline and one carriage return before it, and what is left in \<open>rx_\<close> is exactly the rest
  of the bytes received. The socket stays the same, also when a call returns false.
\<close>

theorem read_line_lines:
  assumes "sockets S sent rcvd" "is_open c"
  shows "\<exists>raws c' w' new. read_lines S n c t w = Inr (map strip_cr raws, c', w')
     \<and> sock c' = sock c \<and> rcvd (sock c) w' = rcvd (sock c) w @ new
     \<and> rx c @ new = concat (map (\<lambda>l. l @ [newline]) raws) @ rx c'
     \<and> (\<forall>l \<in> set raws. newline \<notin> set l)"
  by (rule sockets.read_lines_stream [OF assms])

theorem read_line_lines_witness:
  "sockets net_api (\<lambda>s. outbox) (\<lambda>s. delivered) \<and> is_open \<lparr>sock = 3, rx = []\<rparr> \<and>
   (\<exists>c' w'. read_lines net_api (Suc (Suc 0)) \<lparr>sock = 3, rx = []\<rparr> 500
       \<lparr>inbox = [''a'', ''b'' @ [carriage_return, newline] @ ''c'', newline # ''d''],
        delivered = [], outbox = [], cap = 0, clock = 0, fds = [3]\<rparr> = Inr ([''ab'', ''c''], c', w')
      \<and> rx c' = ''d'')"
proof -
  let ?c = "\<lparr>sock = 3, rx = []\<rparr>"
  let ?w = "\<lparr>inbox = [''a'', ''b'' @ [carriage_return, newline] @ ''c'', newline # ''d''],
        delivered = [], outbox = [], cap = 0, clock = 0, fds = [3]\<rparr>"
  have o: "is_open ?c" by (simp add: is_open_def kInvalid_def)
  obtain raws c' w' new where "read_lines net_api (Suc (Suc 0)) ?c 500 ?w = Inr (map strip_cr raws, c', w')"
    using read_line_lines [OF net.sockets_axioms o, of "Suc (Suc 0)" 500 ?w] by blast
  moreover have "\<exists>c' w'. read_lines net_api (Suc (Suc 0)) ?c 500 ?w = Inr ([''ab'', ''c''], c', w') \<and> rx c' = ''d''"
    by (simp add: read_line_def read_loop.simps net_api_def kInvalid_def strip_cr_def
        set_recv_timeout_def)
  ultimately show ?thesis using o net.sockets_axioms by blast
qed

text \<open>
  C14: Sending. \<open>send_all\<close> always returns; true means that the network took the whole buffer in
  order, false on an open connection that it took a proper prefix of it, and on a closed one
  nothing.
\<close>

theorem send_all_whole:
  assumes "sockets S sent rcvd"
  shows "\<exists>ok w' part. send_all S c data w = Inr (ok, w') \<and> sent (sock c) w' = sent (sock c) w @ part
     \<and> (if ok then is_open c \<and> part = data
        else if is_open c then \<exists>k < length data. part = take k data else part = [])"
  by (rule sockets.send_all_result [OF assms])

theorem send_all_whole_witness:
  "sockets net_api (\<lambda>s. outbox) (\<lambda>s. delivered) \<and>
   (\<exists>w'. send_all net_api \<lparr>sock = 3, rx = []\<rparr> ''hello''
      \<lparr>inbox = [], delivered = [], outbox = [], cap = 2, clock = 0, fds = [3]\<rparr> = Inr (True, w') \<and> outbox w' = ''hello'')"
proof -
  let ?w = "\<lparr>inbox = [], delivered = [], outbox = [], cap = 2, clock = 0, fds = [3]\<rparr>"
  obtain ok w' part where r: "send_all net_api \<lparr>sock = 3, rx = []\<rparr> ''hello'' ?w = Inr (ok, w')"
    "outbox w' = outbox ?w @ part" "ok \<longrightarrow> part = ''hello''"
    using send_all_whole [OF net.sockets_axioms, of "\<lparr>sock = 3, rx = []\<rparr>" "''hello''" ?w] by (auto split: if_splits)
  have "ok"
    using r(1) by (simp add: send_all_def send_loop.simps net_api_def kInvalid_def)
  with r net.sockets_axioms show ?thesis by auto
qed

text \<open>
  C15: Connecting leaks no descriptor. After \<open>connect\<close> the process holds the descriptors it held
  before, less that of the client's previous connection, and the new one exactly when \<open>connect\<close>
  returned true, which is also when the client is open: every socket of an address that refused
  the connection was closed. The receive buffer starts empty.
\<close>

theorem connect_no_leak:
  assumes "descriptors S live" "connect S c host port t w = (ok, c', w')"
  shows "live w' = (live w - (if is_open c then {sock c} else {})) \<union> (if ok then {sock c'} else {})
     \<and> is_open c' = ok \<and> rx c' = []"
  using descriptors.connect_descriptors [OF assms] connect_open [OF assms(2)] by simp

theorem connect_no_leak_witness:
  "descriptors net_api (\<lambda>w. set (fds w) - {kInvalid}) \<and>
   (case connect net_api \<lparr>sock = 3, rx = ''x''\<rparr> ''pool'' 3333 10000
      \<lparr>inbox = [], delivered = [], outbox = [], cap = 0, clock = 0, fds = [3]\<rparr> of (ok, c', w') \<Rightarrow>
      ok \<and> set (fds w') - {kInvalid} = {3} \<and> is_open c' \<and> rx c' = [])"
proof -
  let ?w = "\<lparr>inbox = [], delivered = [], outbox = [], cap = 0, clock = 0, fds = [3]\<rparr>"
  obtain ok c' w' where r: "connect net_api \<lparr>sock = 3, rx = ''x''\<rparr> ''pool'' 3333 10000 ?w = (ok, c', w')"
    by (metis surj_pair)
  then have "ok \<and> sock c' = 3"
    by (auto simp: connect_def close_def net_api_def kInvalid_def)
  then show ?thesis
    using connect_no_leak [OF net_fds.descriptors_axioms r] net_fds.descriptors_axioms r
    by (auto simp: kInvalid_def)
qed

end
