(* ===== verification/Pool.thy ===== *)
theory Pool
  imports Stratum Tcp
begin

text \<open>
  What the two pool connections share (\<open>src/pool/pool_client.hpp\<close>): the callbacks, the identifiers
  of requests, and the abstract class \<open>PoolClient\<close> as a record of operations with the contract
  its users rely on as a locale. A callback runs in the world \<open>'o\<close> that also holds the sockets;
  it may throw, so it returns the fault beside the world it leaves.
\<close>

section \<open>Definitions\<close>

record 'o Callbacks =
  on_job :: "(MiningJob \<Rightarrow> bytes \<Rightarrow> double \<Rightarrow> 'o \<Rightarrow> fault option \<times> 'o) option"
    \<comment> \<open>the third argument is \<open>difficulty()\<close> of the client at the call\<close>
  on_submit_result :: "(bool \<Rightarrow> string \<Rightarrow> 'o \<Rightarrow> fault option \<times> 'o) option"

definition call :: "fault option \<times> 'o \<Rightarrow> 'o res" where
  "call r = (case r of (None, w) \<Rightarrow> Inr w | (Some f, w) \<Rightarrow> Inl f)"

text \<open>\<open>next_id_++\<close> on an \<open>int\<close>: its overflow is undefined.\<close>

definition inc_id :: "i32 \<Rightarrow> i32 res" where
  "inc_id n = (if n = 0x7FFFFFFF then Inl Undefined else Inr (n + 1))"

text \<open>The abstract class: one field per virtual member.\<close>

record ('c, 'o) PoolClient =
  pc_connect :: "'c \<Rightarrow> 'o \<Rightarrow> (bool \<times> 'c \<times> 'o) res"
  pc_disconnect :: "'c \<Rightarrow> 'o \<Rightarrow> 'c \<times> 'o"
  pc_connected :: "'c \<Rightarrow> bool"
  pc_poll :: "'c \<Rightarrow> i32 \<Rightarrow> 'o \<Rightarrow> (bool \<times> 'c \<times> 'o) res"
  pc_submit :: "'c \<Rightarrow> MiningJob \<Rightarrow> u32 \<Rightarrow> bytes \<Rightarrow> 'o \<Rightarrow> (bool \<times> 'c \<times> 'o) res"
  pc_difficulty :: "'c \<Rightarrow> double"

text \<open>The bytes of a nonce as both clients write them, and the hex they send.\<close>

definition nonce_hex :: "u32 \<Rightarrow> string" where
  "nonce_hex nonce = to_hex [byte_at nonce 0, byte_at nonce 1, byte_at nonce 2, byte_at nonce 3]"

definition non_null :: "'j json_api \<Rightarrow> 'j \<Rightarrow> string \<Rightarrow> bool res" where
  "non_null J msg k =
     (if jcontains J msg k then bindR (jfield J msg k) (\<lambda>v. Inr (\<not> is_null J v)) else Inr False)"

definition error_text :: "'j json_api \<Rightarrow> 'j \<Rightarrow> string res" where
  "error_text J msg =
     bindR (non_null J msg ''error'') (\<lambda>e.
       if e then bindR (jfield J msg ''error'') (jdump J) else Inr [])"

section \<open>Lemmas\<close>

lemma call_eq_Inr [res_simps]: "(call r = Inr w) = (r = (None, w))"
  by (auto simp: call_def split: prod.splits option.splits)

lemma call_eq_Inl [res_simps]: "(call r = Inl f) = (\<exists>w. r = (Some f, w))"
  by (auto simp: call_def split: prod.splits option.splits)

lemma nonce_hex_le32: "nonce_hex nonce = to_hex (le32 nonce)"
  by (simp add: nonce_hex_def le32_def)

text \<open>
  What a user of a pool connection relies on: \<open>disconnect\<close> closes; a poll that returns false
  leaves a closed connection, and no poll opens one; submitting does not change whether the
  connection is open; \<open>connect\<close> returns true only with an open connection.
\<close>

locale pool_client =
  fixes P :: "('c, 'o) PoolClient"
  assumes disconnect_closed: "pc_disconnect P c w = (c', w') \<Longrightarrow> \<not> pc_connected P c'"
    and poll_false: "pc_poll P c t w = Inr (False, c', w') \<Longrightarrow> \<not> pc_connected P c'"
    and poll_not_opens: "pc_poll P c t w = Inr (ok, c', w') \<Longrightarrow> pc_connected P c' \<Longrightarrow> pc_connected P c"
    and submit_connected: "pc_submit P c job nonce digest w = Inr (ok, c', w') \<Longrightarrow>
          pc_connected P c' = pc_connected P c"
    and connect_true: "pc_connect P c w = Inr (True, c', w') \<Longrightarrow> pc_connected P c'"

section \<open>A recording world\<close>

text \<open>The scripted network with a record of what the callbacks were given.\<close>

record pool_world = net +
  handed :: "MiningJob list"
  answers :: "(bool \<times> string) list"

definition record_cb :: "pool_world Callbacks" where
  "record_cb = \<lparr>on_job = Some (\<lambda>mj seed d w. (None, w\<lparr>handed := handed w @ [mj]\<rparr>)),
     on_submit_result = Some (\<lambda>ok err w. (None, w\<lparr>answers := answers w @ [(ok, err)]\<rparr>))\<rparr>"

definition quiet_world :: "string list \<Rightarrow> pool_world" where
  "quiet_world chunks = \<lparr>inbox = chunks, delivered = [], outbox = [], cap = 4096, clock = 0, fds = [3],
     handed = [], answers = []\<rparr>"

end
