(* ===== verification/Stratum_Client.thy ===== *)
theory Stratum_Client
  imports Pool
begin

text \<open>
  The Stratum V1 connection (\<open>src/pool/stratum_v1_client.cpp\<close>): subscribe, authorize, notify,
  difficulty, submit. Logging has no effect on the state and is left out, but for the calls its
  arguments make. The JSON library, the sockets and the callbacks are parameters.
\<close>

section \<open>Definitions\<close>

record 'o StratumV1Client =
  sc_host :: string
  sc_port :: u16
  sc_user :: string
  sc_pass :: string
  sc_conn :: TcpClient
  sc_cb :: "'o Callbacks"
  sc_next_id :: i32
  sc_subscribe_id :: i32
  sc_authorize_id :: i32
  sc_last_submit_id :: i32
  sc_extranonce1 :: string
  sc_extranonce2_size :: i32
  sc_difficulty :: double
  sc_job :: StratumJob
  sc_have_job :: bool
  sc_xn2_counter :: u64

definition StratumV1Client_init :: "string \<Rightarrow> u16 \<Rightarrow> string \<Rightarrow> string \<Rightarrow> 'o StratumV1Client" where
  "StratumV1Client_init host port user pass =
     \<lparr>sc_host = host, sc_port = port, sc_user = user, sc_pass = pass, sc_conn = TcpClient_init,
      sc_cb = \<lparr>on_job = None, on_submit_result = None\<rparr>, sc_next_id = 1, sc_subscribe_id = - 1,
      sc_authorize_id = - 1, sc_last_submit_id = - 1, sc_extranonce1 = [], sc_extranonce2_size = 4,
      sc_difficulty = Fin 1, sc_job = StratumJob_init, sc_have_job = False, sc_xn2_counter = 0\<rparr>"

definition stratum_set_callbacks :: "'o StratumV1Client \<Rightarrow> 'o Callbacks \<Rightarrow> 'o StratumV1Client" where
  "stratum_set_callbacks c cb = c\<lparr>sc_cb := cb\<rparr>"

definition stratum_send_json :: "('o, 'a) os_api \<Rightarrow> 'o StratumV1Client \<Rightarrow> string \<Rightarrow> 'o \<Rightarrow> (bool \<times> 'o) res" where
  "stratum_send_json S c line w = send_all S (sc_conn c) (line @ [newline]) w"

definition stratum_disconnect :: "('o, 'a) os_api \<Rightarrow> 'o StratumV1Client \<Rightarrow> 'o \<Rightarrow> 'o StratumV1Client \<times> 'o" where
  "stratum_disconnect S c w =
     (let (conn, w) = close S (sc_conn c) w in (c\<lparr>sc_conn := conn, sc_have_job := False\<rparr>, w))"

definition stratum_connected :: "'o StratumV1Client \<Rightarrow> bool" where
  "stratum_connected c = is_open (sc_conn c)"

definition rebuild_job :: "'o StratumV1Client \<Rightarrow> 'o \<Rightarrow> ('o StratumV1Client \<times> 'o) res" where
  "rebuild_job c w =
     (case on_job (sc_cb c) of
        None \<Rightarrow> Inr (c, w)
      | Some f \<Rightarrow>
          if \<not> sc_have_job c then Inr (c, w)
          else
            bindR (encode_extranonce2 (sc_xn2_counter c) (sc_extranonce2_size c)) (\<lambda>xn2.
            let c = c\<lparr>sc_xn2_counter := sc_xn2_counter c + 1\<rparr> in
            bindR (build_work (sc_job c) (sc_extranonce1 c) xn2 (sc_difficulty c) MiningJob_init)
              (\<lambda>(ok, mj).
                if ok then bindR (call (f mj [] (sc_difficulty c) w)) (\<lambda>w. Inr (c, w))
                else Inr (c, w))))"

definition on_set_difficulty :: "'j json_api \<Rightarrow> 'o StratumV1Client \<Rightarrow> 'j \<Rightarrow> 'o \<Rightarrow> ('o StratumV1Client \<times> 'o) res" where
  "on_set_difficulty J c msg w =
     (if \<not> jcontains J msg ''params'' then Inr (c, w)
      else bindR (jfield J msg ''params'') (\<lambda>params.
        if is_array J params \<and> jsize J params \<noteq> 0 then
          bindR (bindR (jidx J params 0) (get_double J)) (\<lambda>d.
            rebuild_job (c\<lparr>sc_difficulty := d\<rparr>) w)
        else Inr (c, w)))"

definition on_notify :: "'j json_api \<Rightarrow> 'o StratumV1Client \<Rightarrow> 'j \<Rightarrow> 'o \<Rightarrow> ('o StratumV1Client \<times> 'o) res" where
  "on_notify J c msg w =
     bindR (value_json J msg ''params'' (jarray J [])) (\<lambda>params.
     bindR (parse_notify J params (sc_job c)) (\<lambda>(ok, job).
       if ok then rebuild_job (c\<lparr>sc_job := job, sc_have_job := True\<rparr>) w
       else Inr (c\<lparr>sc_job := job\<rparr>, w)))"

definition reply_ok :: "'j json_api \<Rightarrow> 'j \<Rightarrow> bool res" where
  "reply_ok J msg =
     bindR (non_null J msg ''result'') (\<lambda>nn.
       if \<not> nn then Inr False
       else bindR (jfield J msg ''result'') (\<lambda>r.
         if is_boolean J r then bindR (get_bool J r) (\<lambda>b. Inr (b \<noteq> False)) else Inr True))"

definition on_reply :: "'j json_api \<Rightarrow> 'o StratumV1Client \<Rightarrow> 'j \<Rightarrow> 'o \<Rightarrow> ('o StratumV1Client \<times> 'o) res" where
  "on_reply J c msg w =
     bindR (non_null J msg ''id'') (\<lambda>has_id.
     if \<not> has_id then Inr (c, w)
     else
       bindR (bindR (jfield J msg ''id'') (get_int J)) (\<lambda>id.
       bindR (reply_ok J msg) (\<lambda>ok.
       bindR (error_text J msg) (\<lambda>err.
       if id = sc_subscribe_id c then
         bindR (value_json J msg ''result'' (jnull J)) (\<lambda>result.
         bindR (parse_subscribe J result (sc_extranonce1 c) (sc_extranonce2_size c)) (\<lambda>(sub, xn1, sz).
           Inr (c\<lparr>sc_extranonce1 := xn1, sc_extranonce2_size := sz\<rparr>, w)))
       else if id = sc_authorize_id c then Inr (c, w)
       else if id = sc_last_submit_id c then
         (case on_submit_result (sc_cb c) of
            None \<Rightarrow> Inr (c, w)
          | Some f \<Rightarrow> bindR (call (f ok err w)) (\<lambda>w. Inr (c, w)))
       else Inr (c, w)))))"

definition handle_line ::
    "'j json_api \<Rightarrow> ('o, 'a) os_api \<Rightarrow> 'o StratumV1Client \<Rightarrow> string \<Rightarrow> 'o \<Rightarrow> ('o StratumV1Client \<times> 'o) res" where
  "handle_line J S c line w =
     (case jparse J line of
        Inl (Throw e) \<Rightarrow> Inr (c, w)
      | Inl Undefined \<Rightarrow> Inl Undefined
      | Inr msg \<Rightarrow>
          bindR (value_string J msg ''method'' []) (\<lambda>meth.
            if meth = ''mining.set_difficulty'' then on_set_difficulty J c msg w
            else if meth = ''mining.notify'' then on_notify J c msg w
            else if meth = ''client.reconnect'' then
              (let (conn, w) = close S (sc_conn c) w in Inr (c\<lparr>sc_conn := conn\<rparr>, w))
            else on_reply J c msg w))"

definition stratum_poll ::
    "'j json_api \<Rightarrow> ('o, 'a) os_api \<Rightarrow> 'o StratumV1Client \<Rightarrow> i32 \<Rightarrow> 'o \<Rightarrow> (bool \<times> 'o StratumV1Client \<times> 'o) res" where
  "stratum_poll J S c timeout_ms w =
     bindR (read_line S (sc_conn c) timeout_ms w) (\<lambda>(r, conn, w).
       let c = c\<lparr>sc_conn := conn\<rparr> in
       case r of
         None \<Rightarrow> Inr (is_open conn, c, w)
       | Some line \<Rightarrow>
           if line = [] then Inr (True, c, w)
           else bindR (handle_line J S c line w) (\<lambda>(c, w). Inr (True, c, w)))"

text \<open>The loop of \<open>connect\<close>: at most \<open>n\<close> more polls while \<open>extranonce1_\<close> is empty.\<close>

fun subscribe_loop ::
    "'j json_api \<Rightarrow> ('o, 'a) os_api \<Rightarrow> nat \<Rightarrow> 'o StratumV1Client \<Rightarrow> 'o \<Rightarrow> (bool \<times> 'o StratumV1Client \<times> 'o) res" where
  "subscribe_loop J S 0 c w = Inr (sc_extranonce1 c \<noteq> [], c, w)"
| "subscribe_loop J S (Suc n) c w =
     (if sc_extranonce1 c \<noteq> [] then Inr (True, c, w)
      else bindR (stratum_poll J S c 5000 w) (\<lambda>(ok, c, w).
        if \<not> ok then Inr (False, c, w) else subscribe_loop J S n c w))"

definition subscribe_msg :: "'j json_api \<Rightarrow> i32 \<Rightarrow> 'j" where
  "subscribe_msg J rid = jobject J
     [(''id'', jint J rid), (''method'', jstring J ''mining.subscribe''),
      (''params'', jarray J [jstring J ''minerby/0.2''])]"

definition authorize_msg :: "'j json_api \<Rightarrow> i32 \<Rightarrow> string \<Rightarrow> string \<Rightarrow> 'j" where
  "authorize_msg J rid user pass = jobject J
     [(''id'', jint J rid), (''method'', jstring J ''mining.authorize''),
      (''params'', jarray J [jstring J user, jstring J pass])]"

definition stratum_connect ::
    "'j json_api \<Rightarrow> ('o, 'a) os_api \<Rightarrow> 'o StratumV1Client \<Rightarrow> 'o \<Rightarrow> (bool \<times> 'o StratumV1Client \<times> 'o) res" where
  "stratum_connect J S c w =
     (let (opened, conn, w) = connect S (sc_conn c) (sc_host c) (sc_port c) 10000 w;
          c = c\<lparr>sc_conn := conn\<rparr>
      in if \<not> opened then Inr (False, c, w)
         else
           bindR (inc_id (sc_next_id c)) (\<lambda>next.
           let c = c\<lparr>sc_subscribe_id := sc_next_id c, sc_next_id := next\<rparr> in
           bindR (jdump J (subscribe_msg J (sc_subscribe_id c))) (\<lambda>line.
           bindR (stratum_send_json S c line w) (\<lambda>(sent, w).
           if \<not> sent then Inr (False, c, w)
           else
             bindR (inc_id (sc_next_id c)) (\<lambda>next.
             let c = c\<lparr>sc_authorize_id := sc_next_id c, sc_next_id := next\<rparr> in
             bindR (jdump J (authorize_msg J (sc_authorize_id c) (sc_user c) (sc_pass c))) (\<lambda>line.
             bindR (stratum_send_json S c line w) (\<lambda>(sent, w).
             if \<not> sent then Inr (False, c, w) else subscribe_loop J S 20 c w)))))))"

definition submit_msg :: "'j json_api \<Rightarrow> i32 \<Rightarrow> string \<Rightarrow> MiningJob \<Rightarrow> u32 \<Rightarrow> 'j" where
  "submit_msg J rid user job nonce = jobject J
     [(''id'', jint J rid), (''method'', jstring J ''mining.submit''),
      (''params'', jarray J [jstring J user, jstring J (job_id job), jstring J (extranonce2_hex job),
         jstring J (ntime_hex job), jstring J (nonce_hex nonce)])]"

definition stratum_submit ::
    "'j json_api \<Rightarrow> ('o, 'a) os_api \<Rightarrow> 'o StratumV1Client \<Rightarrow> MiningJob \<Rightarrow> u32 \<Rightarrow> bytes \<Rightarrow> 'o
      \<Rightarrow> (bool \<times> 'o StratumV1Client \<times> 'o) res" where
  "stratum_submit J S c job nonce digest w =
     bindR (inc_id (sc_next_id c)) (\<lambda>next.
     let c = c\<lparr>sc_last_submit_id := sc_next_id c, sc_next_id := next\<rparr> in
     bindR (jdump J (submit_msg J (sc_last_submit_id c) (sc_user c) job nonce)) (\<lambda>line.
     bindR (stratum_send_json S c line w) (\<lambda>(sent, w). Inr (sent, c, w))))"

definition stratum_ops :: "'j json_api \<Rightarrow> ('o, 'a) os_api \<Rightarrow> ('o StratumV1Client, 'o) PoolClient" where
  "stratum_ops J S = \<lparr>pc_connect = stratum_connect J S, pc_disconnect = stratum_disconnect S,
     pc_connected = stratum_connected, pc_poll = stratum_poll J S, pc_submit = stratum_submit J S,
     pc_difficulty = sc_difficulty\<rparr>"

section \<open>The contract of a pool connection\<close>

lemma rebuild_job_conn:
  "rebuild_job c w = Inr (c', w') \<Longrightarrow> sc_conn c' = sc_conn c \<and> sc_extranonce1 c' = sc_extranonce1 c"
  by (auto simp: rebuild_job_def Let_def res_simps split: option.splits if_splits)

lemma on_set_difficulty_conn: "ensures (on_set_difficulty J c msg w) (\<lambda>(c', w'). sc_conn c' = sc_conn c)"
  unfolding on_set_difficulty_def
  by (intro ensures_rules) (auto simp: ensures_def dest!: rebuild_job_conn)

lemma on_notify_conn: "ensures (on_notify J c msg w) (\<lambda>(c', w'). sc_conn c' = sc_conn c)"
  unfolding on_notify_def
  by (intro ensures_rules) (auto simp: ensures_def dest!: rebuild_job_conn)

lemma on_reply_conn: "ensures (on_reply J c msg w) (\<lambda>(c', w'). sc_conn c' = sc_conn c)"
  unfolding on_reply_def by (intro ensures_rules) auto

text \<open>A handled line either closes the connection and keeps the extranonce, or keeps the connection.\<close>

lemma handle_line_conn:
  "ensures (handle_line J S c line w) (\<lambda>(c', w').
     sc_conn c' = sc_conn c \<or> \<not> is_open (sc_conn c') \<and> sc_extranonce1 c' = sc_extranonce1 c)"
  unfolding handle_line_def
proof (intro ensures_rules, goal_cases)
  case (2 msg meth)
  then show ?case using on_set_difficulty_conn [of J c msg w] by (auto simp: ensures_def)
next
  case (3 msg meth)
  then show ?case using on_notify_conn [of J c msg w] by (auto simp: ensures_def)
next
  case (4 msg meth x conn w1)
  then show ?case using close_closed [of S "sc_conn c" w conn w1] by (simp add: is_open_def)
next
  case (5 msg meth)
  then show ?case using on_reply_conn [of J c msg w] by (auto simp: ensures_def)
qed simp

lemma stratum_poll_cases:
  assumes "stratum_poll J S c t w = Inr (ok, c', w')"
  obtains conn w1 where "read_line S (sc_conn c) t w = Inr (None, conn, w1)"
      "ok = is_open conn" "c' = c\<lparr>sc_conn := conn\<rparr>" "w' = w1"
    | conn w1 where "read_line S (sc_conn c) t w = Inr (Some [], conn, w1)"
      "ok" "c' = c\<lparr>sc_conn := conn\<rparr>" "w' = w1"
    | conn w1 line where "read_line S (sc_conn c) t w = Inr (Some line, conn, w1)" "line \<noteq> []"
      "ok" "handle_line J S (c\<lparr>sc_conn := conn\<rparr>) line w1 = Inr (c', w')"
proof -
  obtain r conn w1 where r: "read_line S (sc_conn c) t w = Inr (r, conn, w1)"
    using assms by (auto simp: stratum_poll_def bindR_eq_Inr)
  then show thesis
    using assms that by (cases r) (auto simp: stratum_poll_def bindR_eq_Inr Let_def split: if_splits)
qed

lemma stratum_poll_conn:
  assumes "stratum_poll J S c t w = Inr (ok, c', w')"
  shows "(stratum_connected c' \<longrightarrow> stratum_connected c) \<and> (\<not> ok \<longrightarrow> \<not> stratum_connected c')
    \<and> (sc_extranonce1 c' \<noteq> sc_extranonce1 c \<longrightarrow> stratum_connected c' = stratum_connected c)"
  using assms
proof (cases rule: stratum_poll_cases)
  case (3 conn w1 line)
  then show ?thesis
    using ensuresD [OF handle_line_conn 3(4)] read_line_sock [OF 3(1)]
    by (auto simp: stratum_connected_def is_open_def)
qed (auto simp: stratum_connected_def is_open_def dest!: read_line_sock)

lemma stratum_poll_closed: "\<not> stratum_connected c \<Longrightarrow> stratum_poll J S c t w = Inr (False, c, w)"
  by (simp add: stratum_poll_def stratum_connected_def is_open_def read_line_def)

lemma subscribe_loop_closed:
  "\<not> stratum_connected c \<Longrightarrow> sc_extranonce1 c = [] \<Longrightarrow> subscribe_loop J S n c w = Inr (False, c, w)"
  by (cases n) (simp_all add: stratum_poll_closed)

lemma subscribe_loop_conn:
  "subscribe_loop J S n c w = Inr (ok, c', w') \<Longrightarrow> stratum_connected c \<Longrightarrow> ok \<Longrightarrow> stratum_connected c'"
proof (induction n arbitrary: c w)
  case 0
  then show ?case by simp
next
  case (Suc n)
  show ?case
  proof (cases "sc_extranonce1 c = []")
    case True
    obtain b c1 w1 where p: "stratum_poll J S c 5000 w = Inr (b, c1, w1)"
      and rest: "if \<not> b then Inr (False, c1, w1) = Inr (ok, c', w') else subscribe_loop J S n c1 w1 = Inr (ok, c', w')"
      using Suc.prems(1) True by (auto simp: res_simps split: if_splits)
    have go: "subscribe_loop J S n c1 w1 = Inr (ok, c', w')"
      using rest Suc.prems(3) by (auto split: if_splits)
    show ?thesis
    proof (cases "stratum_connected c1")
      case True
      then show ?thesis using Suc.IH [OF go] Suc.prems(3) by simp
    next
      case False
      then have "sc_extranonce1 c1 = []"
        using stratum_poll_conn [OF p] True Suc.prems(2) by auto
      then show ?thesis
        using go False Suc.prems(3) by (simp add: subscribe_loop_closed)
    qed
  next
    case False
    then show ?thesis using Suc.prems by simp
  qed
qed

lemma stratum_connect_true:
  assumes "stratum_connect J S c w = Inr (True, c', w')"
  shows "stratum_connected c'"
proof -
  obtain opened conn w1 where o: "connect S (sc_conn c) (sc_host c) (sc_port c) 10000 w = (opened, conn, w1)"
    by (metis surj_pair)
  with assms obtain c2 w2 where c2: "subscribe_loop J S 20 c2 w2 = Inr (True, c', w')" "sc_conn c2 = conn" "opened"
    by (auto simp: stratum_connect_def Let_def bindR_eq_Inr split: if_splits)
  then show ?thesis
    using subscribe_loop_conn [OF c2(1)] connect_open [OF o] by (simp add: stratum_connected_def)
qed

interpretation stratum: pool_client "stratum_ops (J :: 'j json_api) (S :: ('o, 'a) os_api)"
proof unfold_locales
  fix c :: "'o StratumV1Client" and w c' w'
  assume "pc_disconnect (stratum_ops J S) c w = (c', w')"
  then show "\<not> pc_connected (stratum_ops J S) c'"
    by (auto simp: stratum_ops_def stratum_disconnect_def stratum_connected_def is_open_def
        dest!: close_closed split: prod.splits)
next
  fix c :: "'o StratumV1Client" and t w c' w'
  assume "pc_poll (stratum_ops J S) c t w = Inr (False, c', w')"
  then show "\<not> pc_connected (stratum_ops J S) c'"
    using stratum_poll_conn [of J S c t w False c' w'] by (simp add: stratum_ops_def)
next
  fix c :: "'o StratumV1Client" and t w ok c' w'
  assume "pc_poll (stratum_ops J S) c t w = Inr (ok, c', w')" "pc_connected (stratum_ops J S) c'"
  then show "pc_connected (stratum_ops J S) c"
    using stratum_poll_conn [of J S c t w ok c' w'] by (simp add: stratum_ops_def)
next
  fix c :: "'o StratumV1Client" and job nonce digest w ok c' w'
  assume "pc_submit (stratum_ops J S) c job nonce digest w = Inr (ok, c', w')"
  then show "pc_connected (stratum_ops J S) c' = pc_connected (stratum_ops J S) c"
    by (auto simp: stratum_ops_def stratum_submit_def stratum_connected_def Let_def bindR_eq_Inr)
next
  fix c :: "'o StratumV1Client" and w c' w'
  assume "pc_connect (stratum_ops J S) c w = Inr (True, c', w')"
  then show "pc_connected (stratum_ops J S) c'"
    using stratum_connect_true [of J S c w c' w'] by (simp add: stratum_ops_def)
qed

section \<open>Work handed to the miner\<close>

text \<open>Lines handled one after the other.\<close>

definition feed ::
    "'j json_api \<Rightarrow> ('o, 'a) os_api \<Rightarrow> 'o StratumV1Client \<times> 'o \<Rightarrow> string list \<Rightarrow> ('o StratumV1Client \<times> 'o) res" where
  "feed J S cw lines = foldR (\<lambda>(c, w) line. handle_line J S c line w) cw lines"

text \<open>
  A world that keeps the list of the jobs it was handed: the job callback appends, nothing else
  the client calls touches the list.
\<close>

locale job_log =
  fixes S :: "('o, 'a) os_api"
    and cb :: "'o Callbacks"
    and jobs :: "'o \<Rightarrow> MiningJob list"
  assumes job_appends: "on_job cb = Some f \<Longrightarrow> f mj seed d w = (None, w') \<Longrightarrow> jobs w' = jobs w @ [mj]"
    and result_keeps: "on_submit_result cb = Some g \<Longrightarrow> g ok err w = (None, w') \<Longrightarrow> jobs w' = jobs w"
    and close_keeps: "jobs (os_close S s w) = jobs w"
begin

definition delivers :: "'o StratumV1Client \<Rightarrow> 'o \<Rightarrow> 'o StratumV1Client \<times> 'o \<Rightarrow> bool" where
  "delivers c w cw' = (case cw' of (c', w') \<Rightarrow> sc_cb c' = cb \<and>
     (sc_xn2_counter c' = sc_xn2_counter c \<and> jobs w' = jobs w \<or>
      sc_xn2_counter c' = sc_xn2_counter c + 1 \<and>
        (jobs w' = jobs w \<or>
         (\<exists>mj sz. jobs w' = jobs w @ [mj] \<and>
            encode_extranonce2 (sc_xn2_counter c) sz = Inr (extranonce2_hex mj)))))"

lemma cb_appends:
  "f mj seed d w = (None, w') \<Longrightarrow> on_job (sc_cb c) = Some f \<Longrightarrow> cb = sc_cb c \<Longrightarrow> jobs w' = jobs w @ [mj]"
  using job_appends by simp

lemma cb_keeps:
  "g ok err w = (None, w') \<Longrightarrow> on_submit_result (sc_cb c) = Some g \<Longrightarrow> cb = sc_cb c \<Longrightarrow> jobs w' = jobs w"
  using result_keeps by simp

lemma rebuild_job_delivers: "sc_cb c = cb \<Longrightarrow> ensures (rebuild_job c w) (delivers c w)"
  unfolding rebuild_job_def
  by (intro ensures_rules) (auto simp: delivers_def call_eq_Inr dest!: cb_appends dest: build_work_fields)

lemma delivers_upd:
  "delivers (c\<lparr>sc_difficulty := d\<rparr>) w = delivers c w"
  "delivers (c\<lparr>sc_job := j, sc_have_job := b\<rparr>) w = delivers c w"
  by (simp_all add: delivers_def fun_eq_iff)

lemma on_set_difficulty_delivers: "sc_cb c = cb \<Longrightarrow> ensures (on_set_difficulty J c msg w) (delivers c w)"
  unfolding on_set_difficulty_def
  using rebuild_job_delivers [of "c\<lparr>sc_difficulty := d\<rparr>" for d]
  by (intro ensures_rules) (simp_all add: delivers_upd, simp_all add: delivers_def)

lemma on_notify_delivers: "sc_cb c = cb \<Longrightarrow> ensures (on_notify J c msg w) (delivers c w)"
  unfolding on_notify_def
  using rebuild_job_delivers [of "c\<lparr>sc_job := j, sc_have_job := True\<rparr>" for j]
  by (intro ensures_rules) (simp_all add: delivers_upd, simp_all add: delivers_def)

lemma on_reply_delivers: "sc_cb c = cb \<Longrightarrow> ensures (on_reply J c msg w) (delivers c w)"
  unfolding on_reply_def
  by (intro ensures_rules) (auto simp: delivers_def call_eq_Inr dest!: cb_keeps)

lemma close_jobs: "close S conn w = (conn', w') \<Longrightarrow> jobs w' = jobs w"
  by (auto simp: close_def close_keeps split: if_splits)

lemma handle_line_delivers: "sc_cb c = cb \<Longrightarrow> ensures (handle_line J S c line w) (delivers c w)"
  unfolding handle_line_def
  by (intro ensures_rules on_set_difficulty_delivers on_notify_delivers on_reply_delivers)
    (auto simp: delivers_def dest!: close_jobs [OF sym])

definition numbered :: "u64 \<Rightarrow> nat \<Rightarrow> MiningJob list \<Rightarrow> bool" where
  "numbered c0 m js = (\<exists>ks. sorted_wrt (<) ks \<and> (\<forall>k \<in> set ks. k < m) \<and>
     list_all2 (\<lambda>j k. \<exists>sz. encode_extranonce2 (c0 + of_nat k) sz = Inr (extranonce2_hex j)) js ks)"

lemma numbered_mono: "numbered c0 m js \<Longrightarrow> m \<le> m' \<Longrightarrow> numbered c0 m' js"
  unfolding numbered_def by (meson less_le_trans)

lemma numbered_snoc:
  assumes "numbered c0 m js" "encode_extranonce2 (c0 + of_nat m) sz = Inr (extranonce2_hex mj)"
  shows "numbered c0 (Suc m) (js @ [mj])"
proof -
  obtain ks where "sorted_wrt (<) ks" "\<forall>k \<in> set ks. k < m"
    "list_all2 (\<lambda>j k. \<exists>sz. encode_extranonce2 (c0 + of_nat k) sz = Inr (extranonce2_hex j)) js ks"
    using assms(1) by (auto simp: numbered_def)
  then show ?thesis
    using assms(2) unfolding numbered_def
    by (intro exI [of _ "ks @ [m]"]) (auto simp: sorted_wrt_append less_Suc_eq intro!: list_all2_appendI)
qed

lemma feed_numbered:
  "sc_cb c = cb \<Longrightarrow> feed J S (c, w) lines = Inr (c', w') \<Longrightarrow>
     \<exists>js m. jobs w' = jobs w @ js \<and> m \<le> length lines \<and> numbered (sc_xn2_counter c) m js \<and>
       sc_cb c' = cb \<and> sc_xn2_counter c' = sc_xn2_counter c + of_nat m"
proof (induction lines arbitrary: c' w' rule: rev_induct)
  case Nil
  then show ?case by (auto simp: feed_def numbered_def intro!: exI [of _ 0])
next
  case (snoc line lines)
  then obtain c1 w1 where f: "feed J S (c, w) lines = Inr (c1, w1)"
    and h: "handle_line J S c1 line w1 = Inr (c', w')"
    by (auto simp: feed_def foldR_append bindR_eq_Inr)
  obtain js m where ih: "jobs w1 = jobs w @ js" "m \<le> length lines" "numbered (sc_xn2_counter c) m js"
    "sc_cb c1 = cb" "sc_xn2_counter c1 = sc_xn2_counter c + of_nat m"
    using snoc.IH [OF snoc.prems(1) f] by blast
  have "delivers c1 w1 (c', w')"
    using ensuresD [OF handle_line_delivers [OF ih(4)] h] .
  then have cb: "sc_cb c' = cb" and d: "sc_xn2_counter c' = sc_xn2_counter c1 \<and> jobs w' = jobs w1 \<or>
      sc_xn2_counter c' = sc_xn2_counter c1 + 1 \<and> (jobs w' = jobs w1 \<or>
         (\<exists>mj sz. jobs w' = jobs w1 @ [mj] \<and> encode_extranonce2 (sc_xn2_counter c1) sz = Inr (extranonce2_hex mj)))"
    by (auto simp: delivers_def)
  from d consider "sc_xn2_counter c' = sc_xn2_counter c1" "jobs w' = jobs w1"
    | "sc_xn2_counter c' = sc_xn2_counter c1 + 1" "jobs w' = jobs w1"
    | mj sz where "sc_xn2_counter c' = sc_xn2_counter c1 + 1" "jobs w' = jobs w1 @ [mj]"
      "encode_extranonce2 (sc_xn2_counter c1) sz = Inr (extranonce2_hex mj)" by blast
  then show ?case
  proof cases
    case 1
    then show ?thesis using ih cb by (intro exI [of _ js] exI [of _ m]) simp
  next
    case 2
    then show ?thesis using ih cb numbered_mono [OF ih(3), of "Suc m"]
      by (intro exI [of _ js] exI [of _ "Suc m"]) (simp add: ac_simps)
  next
    case (3 mj sz)
    then show ?thesis using ih cb numbered_snoc [OF ih(3), of sz mj]
      by (intro exI [of _ "js @ [mj]"] exI [of _ "Suc m"]) (simp add: ac_simps)
  qed
qed

end

interpretation recorded: job_log "net_api :: (pool_world, unit) os_api" record_cb handed
  by unfold_locales (auto simp: record_cb_def net_api_def)

lemma counter_mod:
  fixes c0 :: u64
  assumes "n \<le> 8"
  shows "unat (c0 + of_nat k) mod 256 ^ n = (unat c0 + k) mod 256 ^ n"
proof -
  have "(2::nat) ^ 64 = 256 ^ n * 256 ^ (8 - n)"
    using assms by (simp flip: power_add)
  then have "(256::nat) ^ n dvd 2 ^ 64" by (metis dvd_triv_left)
  then show ?thesis
    by (simp add: unat_word_ariths unat_of_nat mod_mod_cancel mod_simps)
qed

lemma encode_defined: "encode_extranonce2 v sz = Inr s \<Longrightarrow> 0 \<le> sint sz \<and> sint sz \<le> 8 \<and> length s = 2 * nat (sint sz)"
proof -
  assume a: "encode_extranonce2 v sz = Inr s"
  then have "0 \<le> sint sz" "sint sz \<le> 8"
    using encode_too_wide [of sz v] by (auto simp: encode_extranonce2_def not_less [symmetric] split: if_splits)
  with a encode_bytes [of sz v] show ?thesis by auto
qed

lemma encode_distinct:
  assumes "encode_extranonce2 (c0 + of_nat k) sz = Inr s" "encode_extranonce2 (c0 + of_nat k') sz' = Inr s"
    and "k < k'" "k' < 256 ^ (length s div 2)"
  shows False
proof -
  note d = encode_defined [OF assms(1)] encode_defined [OF assms(2)]
  have "sint sz' = sint sz" using d by linarith
  then have "sz' = sz" by (rule signed_word_eqI)
  let ?n = "nat (sint sz)"
  have n: "?n \<le> 8" "length s div 2 = ?n" using d by auto
  have "(unat c0 + k) mod 256 ^ ?n = (unat c0 + k') mod 256 ^ ?n"
    using assms(1,2) encode_same_iff [of sz "c0 + of_nat k" "c0 + of_nat k'"] d \<open>sz' = sz\<close>
    by (simp add: counter_mod [OF n(1)])
  then have "(256 ^ ?n) dvd (k' - k)"
    using assms(3) mod_eq_dvd_iff_nat [of "unat c0 + k" "unat c0 + k'" "256 ^ ?n"] by simp
  then show False
    using assms(3,4) n(2) nat_dvd_not_less [of "k' - k" "256 ^ ?n"] by (simp add: less_imp_diff_less)
qed

section \<open>Properties\<close>


definition reading_client :: "string \<Rightarrow> pool_world StratumV1Client" where
  "reading_client xn1 = (StratumV1Client_init ''pool'' 3333 ''u'' ''x'')\<lparr>sc_conn := \<lparr>sock = 3, rx = []\<rparr>,
     sc_cb := record_cb, sc_subscribe_id := 1, sc_authorize_id := 2, sc_next_id := 3, sc_extranonce1 := xn1\<rparr>"

definition notify_json :: jv where
  "notify_json = JObj [(''method'', JStr ''mining.notify''),
     (''params'', JArr [JStr ''1'', JStr (prevhash sample_job), JStr (coinb1 sample_job), JStr (coinb2 sample_job),
        JArr (map JStr (merkle_branch sample_job)), JStr (version sample_job), JStr (nbits sample_job),
        JStr (ntime sample_job), JBool True])]"

definition sample_json :: "jv json_api" where
  "sample_json = jv_api [(''n'', notify_json), (''x'', JNull), (''r'', JObj [(''method'', JStr ''client.reconnect'')])]"

lemma sample_parse:
  "handle_line sample_json S c ''n'' w = rebuild_job (c\<lparr>sc_job := sample_job, sc_have_job := True\<rparr>) w"
  by (simp add: handle_line_def sample_json_def jv_api_def notify_json_def on_notify_def parse_notify_def
      parse_notify_body_def idx_string_def sample_job_def nth_Cons' del: to_hex.simps)

lemma sample_build:
  "\<exists>mj. build_work sample_job (to_hex x1) (to_hex x2) (Fin 1) out = Inr (True, mj)"
proof -
  obtain hdr where "work_header sample_job (to_hex x1) (to_hex x2) = Some hdr"
    by (simp add: work_header_def sample_job_def hex_field_def del: to_hex.simps)
  moreover obtain t where "target_from_difficulty (Fin 1) = Inr t"
    using target_from_difficulty_defined [of "Fin 1"] by auto
  ultimately show ?thesis by (auto simp: build_work_accepts)
qed

lemma sample_notify:
  assumes "sc_cb c = record_cb" "sc_extranonce1 c = to_hex [5]" "sc_extranonce2_size c = 4"
    "sc_difficulty c = Fin 1"
  obtains mj where "handle_line sample_json S c ''n'' w =
    Inr (c\<lparr>sc_job := sample_job, sc_have_job := True, sc_xn2_counter := sc_xn2_counter c + 1\<rparr>,
      w\<lparr>handed := handed w @ [mj]\<rparr>)" "length (extranonce2_hex mj) = 8"
proof -
  have four: "sint (4 :: i32) = 4" by simp
  let ?b = "rev (map (byte_at (sc_xn2_counter c)) [0..<4])"
  have e: "encode_extranonce2 (sc_xn2_counter c) 4 = Inr (to_hex ?b)"
    using encode_bytes [of 4 "sc_xn2_counter c"] by (simp only: four) simp
  obtain mj where b: "build_work sample_job (to_hex [5]) (to_hex ?b) (Fin 1) MiningJob_init = Inr (True, mj)"
    using sample_build by blast
  have "extranonce2_hex mj = to_hex ?b" using build_work_fields [OF b] by simp
  then show thesis
    using that [of mj] assms e b
    by (simp add: sample_parse rebuild_job_def record_cb_def call_def Let_def del: to_hex.simps)
qed


text \<open>
  C35: Connecting. When \<open>connect\<close> returns true the connection is open and an extranonce is known.
  On a client that already has one, from an earlier connection, no reply is awaited: whatever the
  new pool connection answers, \<open>connect\<close> ends with the old extranonce and no line read.
\<close>

theorem stratum_connect_result:
  "ensures (stratum_connect J S c w) (\<lambda>(ok, c', w').
     (ok \<longrightarrow> stratum_connected c' \<and> sc_extranonce1 c' \<noteq> []) \<and>
     (sc_extranonce1 c \<noteq> [] \<longrightarrow> sc_extranonce1 c' = sc_extranonce1 c \<and> rx (sc_conn c') = []))"
proof -
  have loop: "ensures (subscribe_loop J S n c1 w1) (\<lambda>(ok, c', w').
     (ok \<longrightarrow> sc_extranonce1 c' \<noteq> []) \<and> (sc_extranonce1 c1 \<noteq> [] \<longrightarrow> c' = c1))" for n c1 w1
  proof (induction n arbitrary: c1 w1)
    case (Suc n)
    show ?case
      unfolding subscribe_loop.simps
      by (intro ensures_rules) (use Suc in \<open>auto simp: ensures_def\<close>)
  qed (simp add: ensures_def)
  have "ensures (stratum_connect J S c w) (\<lambda>(ok, c', w').
     (ok \<longrightarrow> sc_extranonce1 c' \<noteq> []) \<and>
     (sc_extranonce1 c \<noteq> [] \<longrightarrow> sc_extranonce1 c' = sc_extranonce1 c \<and> rx (sc_conn c') = []))"
    unfolding stratum_connect_def Let_def
  proof (intro ensures_rules, goal_cases)
    case (4 opened _ conn w1)
    then show ?case
      by (intro ensures_mono [OF loop]) (auto dest: connect_open [OF sym] connect_open)
  qed (auto dest: connect_open)
  then show ?thesis
    using stratum_connect_true [of J S c w] by (auto simp: ensures_def)
qed

theorem stratum_connect_result_witness:
  "\<exists>c' w'. stratum_connect sample_json net_api (reading_client ''ab'') (quiet_world []) = Inr (True, c', w')
     \<and> stratum_connected c' \<and> sc_extranonce1 c' = ''ab'' \<and> rx (sc_conn c') = []"
proof -
  let ?c = "reading_client ''ab''"
  have ready: "sc_extranonce1 c \<noteq> [] \<Longrightarrow> subscribe_loop J S n c w = Inr (True, c, w)" for J S n c w
    by (cases n) simp_all
  have o: "\<exists>w. connect net_api (sc_conn ?c) (sc_host ?c) (sc_port ?c) 10000 (quiet_world [])
      = (True, \<lparr>sock = 3, rx = []\<rparr>, w) \<and> cap w = 4096"
    by (simp add: connect_def close_def reading_client_def quiet_world_def net_api_def kInvalid_def set_recv_timeout_def)
  have sends: "cap w = 4096 \<Longrightarrow> \<exists>w'. send_all net_api \<lparr>sock = 3, rx = []\<rparr> (''?'' @ [newline]) w = Inr (True, w') \<and> cap w' = 4096"
    for w :: pool_world
    by (simp add: send_all_def send_loop.simps net_api_def kInvalid_def)
  have d: "jdump sample_json (subscribe_msg sample_json n) = Inr ''?''"
    "jdump sample_json (authorize_msg sample_json n u p) = Inr ''?''" for n u p
    by (simp_all add: sample_json_def jv_api_def subscribe_msg_def authorize_msg_def notify_json_def)
  obtain w1 where w1: "connect net_api (sc_conn ?c) (sc_host ?c) (sc_port ?c) 10000 (quiet_world [])
      = (True, \<lparr>sock = 3, rx = []\<rparr>, w1)" "cap w1 = 4096" using o by blast
  obtain w2 where w2: "send_all net_api \<lparr>sock = 3, rx = []\<rparr> (''?'' @ [newline]) w1 = Inr (True, w2)" "cap w2 = 4096"
    using sends [OF w1(2)] by blast
  obtain w3 where w3: "send_all net_api \<lparr>sock = 3, rx = []\<rparr> (''?'' @ [newline]) w2 = Inr (True, w3)"
    using sends [OF w2(2)] by blast
  have "\<exists>c' w'. stratum_connect sample_json net_api ?c (quiet_world []) = Inr (True, c', w')"
    using w1(1) w2(1) w3
    by (simp add: stratum_connect_def reading_client_def inc_id_def d stratum_send_json_def ready del: append.simps)
  then obtain c' w' where r: "stratum_connect sample_json net_api ?c (quiet_world []) = Inr (True, c', w')" by blast
  show ?thesis
    using ensuresD [OF stratum_connect_result r] r by (auto simp: reading_client_def)
qed

text \<open>
  A dropped connection is not reported. When the peer has closed the connection or the
  socket fails, and no complete line is buffered, \<open>poll\<close> returns true and the client still
  counts as connected; only a closed descriptor makes \<open>poll\<close> return false.
\<close>

theorem stratum_drop_unnoticed:
  assumes "stratum_connected c" "newline \<notin> set (rx (sc_conn c))"
    and "os_recv S (sock (sc_conn c)) 4096 (set_recv_timeout S (sock (sc_conn c)) t w) = (r, w')"
    and "r = Some [] \<or> r = None"
  shows "stratum_poll J S c t w = Inr (True, c, w') \<and> stratum_connected c"
proof -
  have "find_char newline (rx (sc_conn c)) = None" using assms(2) by (simp add: find_char_None)
  then have "read_line S (sc_conn c) t w = Inr (None, sc_conn c, w')"
    using assms(1,3,4) by (auto simp: read_line_def read_loop.simps stratum_connected_def is_open_def)
  then show ?thesis
    using assms(1) by (simp add: stratum_poll_def stratum_connected_def)
qed

theorem stratum_drop_unnoticed_witness:
  "stratum_connected (reading_client []) \<and>
   stratum_poll sample_json net_api (reading_client []) 1000 (quiet_world [[]])
     = Inr (True, reading_client [], quiet_world [])"
proof -
  have "stratum_connected (reading_client [])"
    by (simp add: reading_client_def stratum_connected_def is_open_def kInvalid_def)
  then show ?thesis
    using stratum_drop_unnoticed [of "reading_client []" net_api 1000 "quiet_world [[]]" "Some []" "quiet_world []" sample_json]
    by (simp add: reading_client_def net_api_def quiet_world_def set_recv_timeout_def)
qed

text \<open>
  Submitting. The share is sent under a fresh request number, which becomes the one whose
  reply is awaited; true means that the whole message went out. The nonce field is the hex of the
  four bytes that stand in the header, least significant first.
\<close>

theorem stratum_submit_spec:
  assumes "sockets S sent rcvd" "sc_next_id c \<noteq> 0x7FFFFFFF"
    and "jdump J (submit_msg J (sc_next_id c) (sc_user c) job nonce) = Inr line"
  shows "\<exists>ok w'. stratum_submit J S c job nonce digest w =
       Inr (ok, c\<lparr>sc_last_submit_id := sc_next_id c, sc_next_id := sc_next_id c + 1\<rparr>, w')
     \<and> (ok \<longrightarrow> sent (sock (sc_conn c)) w' = sent (sock (sc_conn c)) w @ line @ [newline])
     \<and> from_hex (nonce_hex nonce) = Inr (le32 nonce)"
proof -
  obtain ok w' part where "send_all S (sc_conn c) (line @ [newline]) w = Inr (ok, w')"
    "sent (sock (sc_conn c)) w' = sent (sock (sc_conn c)) w @ part" "ok \<longrightarrow> part = line @ [newline]"
    using sockets.send_all_result [OF assms(1), of "sc_conn c" "line @ [newline]" w] by (auto split: if_splits)
  then show ?thesis
    using assms(2,3)
    by (simp add: stratum_submit_def inc_id_def Let_def stratum_send_json_def nonce_hex_le32)
qed

theorem stratum_submit_spec_witness:
  "sockets (net_api :: (pool_world, unit) os_api) (\<lambda>s. outbox) (\<lambda>s. delivered) \<and>
   (\<exists>ok w'. stratum_submit sample_json net_api (reading_client []) MiningJob_init 1 [] (quiet_world []) =
       Inr (ok, (reading_client [])\<lparr>sc_last_submit_id := 3, sc_next_id := 4\<rparr>, w')
     \<and> (ok \<longrightarrow> outbox w' = ''?'' @ [newline])) \<and> from_hex (nonce_hex 1) = Inr [1, 0, 0, 0]"
proof -
  have d: "jdump sample_json (submit_msg sample_json 3 ''u'' MiningJob_init 1) = Inr ''?''"
    by (simp add: sample_json_def jv_api_def submit_msg_def notify_json_def)
  have b: "le32 1 = [1, 0, 0, 0]" by code_simp
  show ?thesis
    using stratum_submit_spec [OF net.sockets_axioms, of "reading_client []" sample_json MiningJob_init 1 "''?''" "[]" "quiet_world []"]
      d net.sockets_axioms
    by (auto simp: reading_client_def StratumV1Client_init_def quiet_world_def b)
qed

text \<open>
  Only the last submitted share is tracked. After two submissions, the pool's answer to the
  first one changes nothing and reaches no callback, while the answer to the second one is handed
  to the callback with its verdict.
\<close>

theorem stratum_earlier_reply_lost:
  assumes "stratum_submit J S c j1 n1 d1 w = Inr (ok1, c1, w1)" "stratum_submit J S c1 j2 n2 d2 w1 = Inr (ok2, c2, w2)"
    and "sc_last_submit_id c1 \<notin> {sc_subscribe_id c, sc_authorize_id c}"
    and "sc_last_submit_id c2 \<notin> {sc_subscribe_id c, sc_authorize_id c}"
    and "non_null J msg ''id'' = Inr True" "bindR (jfield J msg ''id'') (get_int J) = Inr rid"
    and "reply_ok J msg = Inr ok" "error_text J msg = Inr err"
    and "on_submit_result (sc_cb c) = Some f"
  shows "(rid = sc_last_submit_id c1 \<longrightarrow> on_reply J c2 msg v = Inr (c2, v)) \<and>
     (rid = sc_last_submit_id c2 \<longrightarrow>
        on_reply J c2 msg v = bindR (call (f ok err v)) (\<lambda>v. Inr (c2, v)))"
proof -
  have c1: "sc_next_id c1 = sc_last_submit_id c1 + 1" "sc_cb c1 = sc_cb c"
    "sc_subscribe_id c1 = sc_subscribe_id c" "sc_authorize_id c1 = sc_authorize_id c"
    using assms(1) by (auto simp: stratum_submit_def Let_def bindR_eq_Inr inc_id_def split: if_splits)
  have c2: "sc_last_submit_id c2 = sc_next_id c1" "sc_cb c2 = sc_cb c1"
    "sc_subscribe_id c2 = sc_subscribe_id c1" "sc_authorize_id c2 = sc_authorize_id c1"
    using assms(2) by (auto simp: stratum_submit_def Let_def bindR_eq_Inr inc_id_def split: if_splits)
  have "sc_last_submit_id c1 \<noteq> sc_last_submit_id c2" using c1(1) c2(1) by simp
  then show ?thesis
    using assms(3-9) c1 c2 by (simp add: on_reply_def)
qed

theorem stratum_earlier_reply_lost_witness:
  "\<exists>ok1 c1 w1 ok2 c2 w2.
     stratum_submit sample_json net_api (reading_client []) MiningJob_init 1 [] (quiet_world []) = Inr (ok1, c1, w1)
   \<and> stratum_submit sample_json net_api c1 MiningJob_init 2 [] w1 = Inr (ok2, c2, w2)
   \<and> on_reply sample_json c2 (JObj [(''id'', JInt 3), (''result'', JBool True)]) (quiet_world []) = Inr (c2, quiet_world [])
   \<and> on_reply sample_json c2 (JObj [(''id'', JInt 4), (''result'', JBool True)]) (quiet_world [])
       = Inr (c2, (quiet_world [])\<lparr>answers := [(True, [])]\<rparr>)"
proof -
  let ?c = "reading_client []"
  let ?c1 = "?c\<lparr>sc_last_submit_id := 3, sc_next_id := 4\<rparr>"
  let ?c2 = "?c1\<lparr>sc_last_submit_id := 4, sc_next_id := 5\<rparr>"
  obtain ok1 w1 where 1: "stratum_submit sample_json net_api ?c MiningJob_init 1 [] (quiet_world []) = Inr (ok1, ?c1, w1)"
    by (simp add: stratum_submit_def reading_client_def StratumV1Client_init_def inc_id_def sample_json_def jv_api_def
        submit_msg_def notify_json_def stratum_send_json_def send_all_def send_loop.simps net_api_def quiet_world_def kInvalid_def)
  obtain ok2 w2 where 2: "stratum_submit sample_json net_api ?c1 MiningJob_init 2 [] w1 = Inr (ok2, ?c2, w2)"
    using net.send_all_result [of "sc_conn ?c1" "''?'' @ [newline]" w1]
    by (auto simp: stratum_submit_def reading_client_def StratumV1Client_init_def inc_id_def sample_json_def jv_api_def
        submit_msg_def notify_json_def stratum_send_json_def)
  have ids: "sc_last_submit_id ?c1 \<notin> {sc_subscribe_id ?c, sc_authorize_id ?c}"
    "sc_last_submit_id ?c2 \<notin> {sc_subscribe_id ?c, sc_authorize_id ?c}"
    by (simp_all add: reading_client_def)
  let ?m = "\<lambda>n. JObj [(''id'', JInt n), (''result'', JBool True)]"
  have m: "non_null sample_json (?m n) ''id'' = Inr True"
    "bindR (jfield sample_json (?m n) ''id'') (get_int sample_json) = Inr (word_of_int n)"
    "reply_ok sample_json (?m n) = Inr True" "error_text sample_json (?m n) = Inr []" for n
    by (simp_all add: non_null_def reply_ok_def error_text_def sample_json_def jv_api_simps)
  have cb: "on_submit_result (sc_cb ?c) = Some (\<lambda>ok err w. (None, w\<lparr>answers := answers w @ [(ok, err)]\<rparr>))"
    by (simp add: reading_client_def record_cb_def)
  have "on_reply sample_json ?c2 (?m 3) (quiet_world []) = Inr (?c2, quiet_world [])"
    using stratum_earlier_reply_lost [OF 1 2 ids m cb, of 3 "quiet_world []"] by simp
  moreover have "on_reply sample_json ?c2 (?m 4) (quiet_world []) = Inr (?c2, (quiet_world [])\<lparr>answers := [(True, [])]\<rparr>)"
    using stratum_earlier_reply_lost [OF 1 2 ids m cb, of 4 "quiet_world []"]
    by (simp add: call_def quiet_world_def)
  ultimately show ?thesis using 1 2 by blast
qed

text \<open>
  An extranonce size out of range is fatal. When the pool answers the subscription with a
  size above 8, the client logs the answer as bad and keeps it; with a job and a job callback at
  hand, the next piece of work shifts a 64-bit counter by 64 bits or more.
\<close>

theorem oversized_extranonce_undefined:
  assumes "non_null J msg ''id'' = Inr True" "bindR (jfield J msg ''id'') (get_int J) = Inr (sc_subscribe_id c)"
    and "reply_ok J msg = Inr ok" "error_text J msg = Inr err"
    and "value_json J msg ''result'' (jnull J) = Inr result"
    and "parse_subscribe J result (sc_extranonce1 c) (sc_extranonce2_size c) = Inr (False, xn1, sz)" "8 < sint sz"
    and "on_job (sc_cb c) = Some f" "sc_have_job c"
  shows "\<exists>c'. on_reply J c msg w = Inr (c', w) \<and> sc_extranonce1 c' = xn1 \<and> rebuild_job c' w = Inl Undefined"
  using assms by (simp add: on_reply_def rebuild_job_def encode_too_wide)

theorem oversized_extranonce_undefined_witness:
  "\<exists>c'. on_reply sample_json ((reading_client [])\<lparr>sc_have_job := True\<rparr>)
       (JObj [(''id'', JInt 1), (''result'', JArr [JNull, JStr ''ab'', JInt 9])]) (quiet_world []) = Inr (c', quiet_world [])
     \<and> rebuild_job c' (quiet_world []) = Inl Undefined"
proof -
  let ?c = "(reading_client [])\<lparr>sc_have_job := True\<rparr>"
  let ?m = "JObj [(''id'', JInt 1), (''result'', JArr [JNull, JStr ''ab'', JInt 9])]"
  have m: "non_null sample_json ?m ''id'' = Inr True"
    "bindR (jfield sample_json ?m ''id'') (get_int sample_json) = Inr (sc_subscribe_id ?c)"
    "reply_ok sample_json ?m = Inr True" "error_text sample_json ?m = Inr []"
    "value_json sample_json ?m ''result'' (jnull sample_json) = Inr (JArr [JNull, JStr ''ab'', JInt 9])"
    "parse_subscribe sample_json (JArr [JNull, JStr ''ab'', JInt 9]) (sc_extranonce1 ?c) (sc_extranonce2_size ?c)
       = Inr (False, ''ab'', 9)"
    by (simp_all add: non_null_def reply_ok_def error_text_def sample_json_def jv_api_simps reading_client_def
        parse_subscribe_def idx_string_def)
  show ?thesis
    using oversized_extranonce_undefined [OF m, of _ "quiet_world []"]
    by (auto simp: reading_client_def record_cb_def)
qed

end
