(* ===== verification/Monero_Client.thy ===== *)
theory Monero_Client
  imports Pool
begin

text \<open>
  The Monero pool connection (\<open>src/pool/monero_client.cpp\<close>): login, job, keepalive, submit. The
  JSON library, the sockets, the clock and the callbacks are parameters; logging is left out but
  for the calls its arguments make.
\<close>

section \<open>Definitions\<close>

record 'o MoneroClient =
  mc_host :: string
  mc_port :: u16
  mc_user :: string
  mc_pass :: string
  mc_conn :: TcpClient
  mc_cb :: "'o Callbacks"
  mc_next_id :: i32
  mc_login_id :: i32
  mc_last_submit_id :: i32
  mc_rpc_id :: string
  mc_logged_in :: bool
  mc_difficulty :: double
  mc_last_keepalive :: int  \<comment> \<open>nanoseconds of the steady clock\<close>

definition MoneroClient_init :: "string \<Rightarrow> u16 \<Rightarrow> string \<Rightarrow> string \<Rightarrow> 'o MoneroClient" where
  "MoneroClient_init host port user pass =
     \<lparr>mc_host = host, mc_port = port, mc_user = user, mc_pass = pass, mc_conn = TcpClient_init,
      mc_cb = \<lparr>on_job = None, on_submit_result = None\<rparr>, mc_next_id = 1, mc_login_id = - 1,
      mc_last_submit_id = - 1, mc_rpc_id = [], mc_logged_in = False, mc_difficulty = Fin 0,
      mc_last_keepalive = 0\<rparr>"

definition monero_set_callbacks :: "'o MoneroClient \<Rightarrow> 'o Callbacks \<Rightarrow> 'o MoneroClient" where
  "monero_set_callbacks c cb = c\<lparr>mc_cb := cb\<rparr>"

definition monero_send_json :: "('o, 'a) os_api \<Rightarrow> 'o MoneroClient \<Rightarrow> string \<Rightarrow> 'o \<Rightarrow> (bool \<times> 'o) res" where
  "monero_send_json S c line w = send_all S (mc_conn c) (line @ [newline]) w"

definition monero_disconnect :: "('o, 'a) os_api \<Rightarrow> 'o MoneroClient \<Rightarrow> 'o \<Rightarrow> 'o MoneroClient \<times> 'o" where
  "monero_disconnect S c w =
     (let (conn, w) = close S (mc_conn c) w
      in (c\<lparr>mc_conn := conn, mc_logged_in := False, mc_rpc_id := []\<rparr>, w))"

definition monero_connected :: "'o MoneroClient \<Rightarrow> bool" where
  "monero_connected c = is_open (mc_conn c)"

definition keepalive_msg :: "'j json_api \<Rightarrow> i32 \<Rightarrow> string \<Rightarrow> 'j" where
  "keepalive_msg J rid rpc_id = jobject J
     [(''id'', jint J rid), (''jsonrpc'', jstring J ''2.0''), (''method'', jstring J ''keepalived''),
      (''params'', jobject J [(''id'', jstring J rpc_id)])]"

definition maybe_keepalive ::
    "'j json_api \<Rightarrow> ('o, 'a) os_api \<Rightarrow> 'o MoneroClient \<Rightarrow> 'o \<Rightarrow> ('o MoneroClient \<times> 'o) res" where
  "maybe_keepalive J S c w =
     (if \<not> mc_logged_in c \<or> mc_rpc_id c = [] then Inr (c, w)
      else let (now, w) = os_now S w in
        if (now - mc_last_keepalive c) sdiv 1000000000 < 45 then Inr (c, w)
        else
          let c = c\<lparr>mc_last_keepalive := now\<rparr> in
          bindR (inc_id (mc_next_id c)) (\<lambda>next.
          let rid = mc_next_id c; c = c\<lparr>mc_next_id := next\<rparr> in
          bindR (jdump J (keepalive_msg J rid (mc_rpc_id c))) (\<lambda>line.
          bindR (monero_send_json S c line w) (\<lambda>(sent, w). Inr (c, w)))))"

text \<open>
  \<open>apply_job\<close> catches every exception of its body, the callback's too. The body is cut at its two
  effects: what comes before \<open>difficulty_\<close> is assigned gives the job, what comes after gives the
  seed; an exception before the assignment leaves the client as it was, one after it does not.
\<close>

definition job_fields :: "'j json_api \<Rightarrow> 'j \<Rightarrow> MiningJob option res" where
  "job_fields J j =
     bindR (bindR (jat J j ''blob'') (get_string J)) (\<lambda>blob_hex.
     bindR (from_hex blob_hex) (\<lambda>bs.
     if length bs < 43 then Inr None
     else
       bindR (bindR (jat J j ''target'') (get_string J)) (\<lambda>target_hex.
       bindR (monero_target_from_hex target_hex) (\<lambda>tgt.
       bindR (bindR (jat J j ''job_id'') (get_string J)) (\<lambda>jid.
       Inr (Some (MiningJob_init\<lparr>blob := bs, nonce_offset := 39, target := tgt, job_id := jid\<rparr>)))))))"

definition job_seed :: "'j json_api \<Rightarrow> 'j \<Rightarrow> bytes res" where
  "job_seed J j =
     bindR (if jcontains J j ''seed_hash'' then
              bindR (jfield J j ''seed_hash'') (\<lambda>v.
                if is_string J v then bindR (get_string J v) from_hex else Inr [])
            else Inr []) (\<lambda>seed.
     bindR (value_int J j ''height'' 0) (\<lambda>height. Inr seed))"

definition apply_job :: "'j json_api \<Rightarrow> 'o MoneroClient \<Rightarrow> 'j \<Rightarrow> 'o \<Rightarrow> (bool \<times> 'o MoneroClient \<times> 'o) res" where
  "apply_job J c j w =
     (case job_fields J j of
        Inl Undefined \<Rightarrow> Inl Undefined
      | Inl (Throw e) \<Rightarrow> Inr (False, c, w)
      | Inr None \<Rightarrow> Inr (False, c, w)
      | Inr (Some mj) \<Rightarrow>
          (let c = c\<lparr>mc_difficulty := target_to_difficulty (target mj)\<rparr> in
           case job_seed J j of
             Inl Undefined \<Rightarrow> Inl Undefined
           | Inl (Throw e) \<Rightarrow> Inr (False, c, w)
           | Inr seed \<Rightarrow>
               (case on_job (mc_cb c) of
                  None \<Rightarrow> Inr (True, c, w)
                | Some f \<Rightarrow>
                    (case f mj seed (mc_difficulty c) w of
                       (None, w) \<Rightarrow> Inr (True, c, w)
                     | (Some (Throw e), w) \<Rightarrow> Inr (False, c, w)
                     | (Some Undefined, w) \<Rightarrow> Inl Undefined))))"

definition on_login_reply :: "'j json_api \<Rightarrow> 'o MoneroClient \<Rightarrow> 'j \<Rightarrow> string \<Rightarrow> 'o \<Rightarrow> ('o MoneroClient \<times> 'o) res" where
  "on_login_reply J c msg err w =
     (if err \<noteq> [] then Inr (c, w)
      else
        bindR (jfield J msg ''result'') (\<lambda>result.
        bindR (value_string J result ''id'' []) (\<lambda>rpc_id.
        let c = c\<lparr>mc_rpc_id := rpc_id, mc_logged_in := rpc_id \<noteq> []\<rparr> in
        if jcontains J result ''job'' then
          bindR (jfield J result ''job'') (\<lambda>j.
          bindR (apply_job J c j w) (\<lambda>(ok, c, w). Inr (c, w)))
        else Inr (c, w))))"

definition status_ok :: "'j json_api \<Rightarrow> 'j \<Rightarrow> string \<Rightarrow> bool res" where
  "status_ok J msg err =
     (if err \<noteq> [] then Inr False
      else bindR (non_null J msg ''result'') (\<lambda>nn.
        if \<not> nn then Inr False
        else bindR (jfield J msg ''result'') (\<lambda>r.
          bindR (value_string J r ''status'' []) (\<lambda>st. Inr (st = ''OK'')))))"

definition handle :: "'j json_api \<Rightarrow> 'o MoneroClient \<Rightarrow> 'j \<Rightarrow> 'o \<Rightarrow> ('o MoneroClient \<times> 'o) res" where
  "handle J c msg w =
     bindR (jdump J msg) (\<lambda>log.
     bindR (value_string J msg ''method'' []) (\<lambda>meth.
     if meth = ''job'' then
       bindR (value_json J msg ''params'' (jobject J [])) (\<lambda>params.
       bindR (apply_job J c params w) (\<lambda>(ok, c, w). Inr (c, w)))
     else
       bindR (non_null J msg ''id'') (\<lambda>has_id.
       if \<not> has_id then Inr (c, w)
       else
         bindR (bindR (jfield J msg ''id'') (get_int J)) (\<lambda>rid.
         bindR (error_text J msg) (\<lambda>err.
         if rid = mc_login_id c then on_login_reply J c msg err w
         else if rid = mc_last_submit_id c then
           bindR (status_ok J msg err) (\<lambda>ok.
             case on_submit_result (mc_cb c) of
               None \<Rightarrow> Inr (c, w)
             | Some f \<Rightarrow> bindR (call (f ok err w)) (\<lambda>w. Inr (c, w)))
         else Inr (c, w))))))"

definition monero_poll ::
    "'j json_api \<Rightarrow> ('o, 'a) os_api \<Rightarrow> 'o MoneroClient \<Rightarrow> i32 \<Rightarrow> 'o \<Rightarrow> (bool \<times> 'o MoneroClient \<times> 'o) res" where
  "monero_poll J S c timeout_ms w =
     bindR (maybe_keepalive J S c w) (\<lambda>(c, w).
     bindR (read_line S (mc_conn c) timeout_ms w) (\<lambda>(r, conn, w).
       let c = c\<lparr>mc_conn := conn\<rparr> in
       case r of
         None \<Rightarrow> Inr (is_open conn, c, w)
       | Some line \<Rightarrow>
           if line = [] then Inr (True, c, w)
           else case jparse J line of
               Inl (Throw e) \<Rightarrow> Inr (True, c, w)
             | Inl Undefined \<Rightarrow> Inl Undefined
             | Inr msg \<Rightarrow> bindR (handle J c msg w) (\<lambda>(c, w). Inr (True, c, w))))"

fun login_loop ::
    "'j json_api \<Rightarrow> ('o, 'a) os_api \<Rightarrow> nat \<Rightarrow> 'o MoneroClient \<Rightarrow> 'o \<Rightarrow> (bool \<times> 'o MoneroClient \<times> 'o) res" where
  "login_loop J S 0 c w = Inr (mc_logged_in c, c, w)"
| "login_loop J S (Suc n) c w =
     (if mc_logged_in c then Inr (True, c, w)
      else bindR (monero_poll J S c 5000 w) (\<lambda>(ok, c, w).
        if \<not> ok then Inr (False, c, w) else login_loop J S n c w))"

definition login_msg :: "'j json_api \<Rightarrow> i32 \<Rightarrow> string \<Rightarrow> string \<Rightarrow> 'j" where
  "login_msg J rid user pass = jobject J
     [(''id'', jint J rid), (''jsonrpc'', jstring J ''2.0''), (''method'', jstring J ''login''),
      (''params'', jobject J [(''login'', jstring J user), (''pass'', jstring J pass),
         (''agent'', jstring J ''minerby/0.2.0''), (''algo'', jarray J [jstring J ''rx/0''])])]"

definition monero_connect ::
    "'j json_api \<Rightarrow> ('o, 'a) os_api \<Rightarrow> 'o MoneroClient \<Rightarrow> 'o \<Rightarrow> (bool \<times> 'o MoneroClient \<times> 'o) res" where
  "monero_connect J S c w =
     (let (opened, conn, w) = connect S (mc_conn c) (mc_host c) (mc_port c) 10000 w;
          c = c\<lparr>mc_conn := conn\<rparr>
      in if \<not> opened then Inr (False, c, w)
         else
           bindR (inc_id (mc_next_id c)) (\<lambda>next.
           let c = c\<lparr>mc_login_id := mc_next_id c, mc_next_id := next\<rparr> in
           bindR (jdump J (login_msg J (mc_login_id c) (mc_user c) (mc_pass c))) (\<lambda>line.
           bindR (monero_send_json S c line w) (\<lambda>(sent, w).
           if \<not> sent then Inr (False, c, w)
           else let (now, w) = os_now S w in
             login_loop J S 20 (c\<lparr>mc_last_keepalive := now\<rparr>) w))))"

definition monero_submit_msg :: "'j json_api \<Rightarrow> i32 \<Rightarrow> string \<Rightarrow> MiningJob \<Rightarrow> u32 \<Rightarrow> bytes \<Rightarrow> 'j" where
  "monero_submit_msg J rid rpc_id job nonce digest = jobject J
     [(''id'', jint J rid), (''jsonrpc'', jstring J ''2.0''), (''method'', jstring J ''submit''),
      (''params'', jobject J [(''id'', jstring J rpc_id), (''job_id'', jstring J (job_id job)),
         (''nonce'', jstring J (nonce_hex nonce)), (''result'', jstring J (to_hex digest))])]"

definition monero_submit ::
    "'j json_api \<Rightarrow> ('o, 'a) os_api \<Rightarrow> 'o MoneroClient \<Rightarrow> MiningJob \<Rightarrow> u32 \<Rightarrow> bytes \<Rightarrow> 'o
      \<Rightarrow> (bool \<times> 'o MoneroClient \<times> 'o) res" where
  "monero_submit J S c job nonce digest w =
     bindR (inc_id (mc_next_id c)) (\<lambda>next.
     let c = c\<lparr>mc_last_submit_id := mc_next_id c, mc_next_id := next\<rparr> in
     bindR (jdump J (monero_submit_msg J (mc_last_submit_id c) (mc_rpc_id c) job nonce digest)) (\<lambda>line.
     bindR (monero_send_json S c line w) (\<lambda>(sent, w). Inr (sent, c, w))))"

definition monero_ops :: "'j json_api \<Rightarrow> ('o, 'a) os_api \<Rightarrow> ('o MoneroClient, 'o) PoolClient" where
  "monero_ops J S = \<lparr>pc_connect = monero_connect J S, pc_disconnect = monero_disconnect S,
     pc_connected = monero_connected, pc_poll = monero_poll J S, pc_submit = monero_submit J S,
     pc_difficulty = mc_difficulty\<rparr>"

section \<open>The contract of a pool connection\<close>

text \<open>What handling a message leaves alone: the connection, the callbacks and the request numbers.\<close>

definition same_session :: "'o MoneroClient \<Rightarrow> 'o MoneroClient \<Rightarrow> bool" where
  "same_session c c' = (mc_conn c' = mc_conn c \<and> mc_cb c' = mc_cb c \<and> mc_login_id c' = mc_login_id c
     \<and> mc_last_submit_id c' = mc_last_submit_id c \<and> mc_next_id c' = mc_next_id c)"

lemma apply_job_session: "ensures (apply_job J c j w) (\<lambda>(ok, c', w'). same_session c c'
     \<and> mc_rpc_id c' = mc_rpc_id c \<and> mc_logged_in c' = mc_logged_in c)"
  unfolding apply_job_def by (intro ensures_rules) (auto simp: same_session_def)

lemma handle_session: "ensures (handle J c msg w) (\<lambda>(c', w'). same_session c c')"
  unfolding handle_def on_login_reply_def
  by (intro ensures_rules)
    (auto simp: same_session_def dest!: ensuresD [OF apply_job_session])

lemma maybe_keepalive_conn: "ensures (maybe_keepalive J S c w) (\<lambda>(c', w'). mc_conn c' = mc_conn c
     \<and> mc_logged_in c' = mc_logged_in c \<and> mc_rpc_id c' = mc_rpc_id c \<and> mc_cb c' = mc_cb c)"
  unfolding maybe_keepalive_def Let_def by (intro ensures_rules) auto

lemma monero_poll_conn:
  "ensures (monero_poll J S c t w) (\<lambda>(ok, c', w').
     monero_connected c' = monero_connected c \<and> (\<not> ok \<longrightarrow> \<not> monero_connected c'))"
  unfolding monero_poll_def Let_def
  by (intro ensures_rules)
    (auto simp: monero_connected_def is_open_def same_session_def
      dest!: ensuresD [OF maybe_keepalive_conn] ensuresD [OF handle_session] read_line_sock)

lemma login_loop_conn:
  "ensures (login_loop J S n c w) (\<lambda>(ok, c', w').
     monero_connected c' = monero_connected c \<and> (ok \<longrightarrow> mc_logged_in c'))"
proof (induction n arbitrary: c w)
  case (Suc n)
  show ?case
    unfolding login_loop.simps
    by (intro ensures_rules)
      (use Suc in \<open>auto simp: ensures_def dest!: ensuresD [OF monero_poll_conn]\<close>)
qed (simp add: ensures_def)

lemma monero_connect_conn:
  "ensures (monero_connect J S c w) (\<lambda>(ok, c', w'). ok \<longrightarrow> monero_connected c' \<and> mc_logged_in c')"
  unfolding monero_connect_def Let_def
proof (intro ensures_rules, goal_cases)
  case (3 opened p conn w1)
  then have "is_open conn" by (auto dest: connect_open [OF sym] connect_open)
  then show ?case
    by (intro ensures_mono [OF login_loop_conn]) (auto simp: monero_connected_def)
qed auto

interpretation monero: pool_client "monero_ops (J :: 'j json_api) (S :: ('o, 'a) os_api)"
proof unfold_locales
  fix c :: "'o MoneroClient" and w c' w'
  assume "pc_disconnect (monero_ops J S) c w = (c', w')"
  then show "\<not> pc_connected (monero_ops J S) c'"
    by (auto simp: monero_ops_def monero_disconnect_def monero_connected_def is_open_def
        dest!: close_closed split: prod.splits)
next
  fix c :: "'o MoneroClient" and job nonce digest w ok c' w'
  assume "pc_submit (monero_ops J S) c job nonce digest w = Inr (ok, c', w')"
  then show "pc_connected (monero_ops J S) c' = pc_connected (monero_ops J S) c"
    by (auto simp: monero_ops_def monero_submit_def monero_connected_def Let_def bindR_eq_Inr)
qed (auto simp: monero_ops_def dest!: ensuresD [OF monero_poll_conn] ensuresD [OF monero_connect_conn])

section \<open>The session invariant\<close>

definition session_inv :: "'o MoneroClient \<Rightarrow> bool" where
  "session_inv c = (mc_logged_in c = (mc_rpc_id c \<noteq> []))"

lemma handle_inv: "handle J c msg w = Inr (c', w') \<Longrightarrow> session_inv c \<Longrightarrow> session_inv c'"
proof -
  assume inv: "session_inv c" and h: "handle J c msg w = Inr (c', w')"
  have "ensures (handle J c msg w) (\<lambda>(c', w'). session_inv c')"
    unfolding handle_def on_login_reply_def
    by (intro ensures_rules) (use inv in \<open>auto simp: session_inv_def dest!: ensuresD [OF apply_job_session]\<close>)
  with h show ?thesis by (simp add: ensures_def)
qed

lemma session_inv_conn [simp]: "session_inv (c\<lparr>mc_conn := conn\<rparr>) = session_inv c"
  by (simp add: session_inv_def)

lemma maybe_keepalive_inv: "session_inv c \<Longrightarrow> maybe_keepalive J S c w = Inr (c', w') \<Longrightarrow> session_inv c'"
  using ensuresD [OF maybe_keepalive_conn, of J S c w "(c', w')"] by (simp add: session_inv_def)

lemma monero_poll_inv: "session_inv c \<Longrightarrow> ensures (monero_poll J S c t w) (\<lambda>(ok, c', w'). session_inv c')"
  unfolding monero_poll_def Let_def
  by (intro ensures_rules) (auto intro: maybe_keepalive_inv dest!: handle_inv)

lemma login_loop_inv: "session_inv c \<Longrightarrow> ensures (login_loop J S n c w) (\<lambda>(ok, c', w'). session_inv c')"
proof (induction n arbitrary: c w)
  case (Suc n)
  have "session_inv c1" if "monero_poll J S c 5000 w = Inr (ok, c1, w1)" for ok c1 w1
    using ensuresD [OF monero_poll_inv [OF Suc.prems] that] by simp
  then show ?case
    unfolding login_loop.simps
    by (intro ensures_rules) (use Suc in auto)
qed (simp add: ensures_def)

lemma monero_connect_inv: "session_inv c \<Longrightarrow> ensures (monero_connect J S c w) (\<lambda>(ok, c', w'). session_inv c')"
  unfolding monero_connect_def Let_def
  by (intro ensures_rules login_loop_inv) (auto simp: session_inv_def)

lemma monero_submit_inv: "session_inv c \<Longrightarrow> ensures (monero_submit J S c job nonce digest w) (\<lambda>(ok, c', w'). session_inv c')"
  unfolding monero_submit_def Let_def by (intro ensures_rules) (auto simp: session_inv_def)

section \<open>Jobs\<close>

lemma job_fields_shape:
  assumes "job_fields J j = Inr (Some mj)"
  shows "43 \<le> length (blob mj) \<and> nonce_offset mj = 39 \<and> length (target mj) = 32"
  using assms monero_target_length
  by (auto simp: job_fields_def bindR_eq_Inr split: if_splits)

lemma keepalive_due: "(x sdiv 1000000000 < (45 :: int)) = (x < 45000000000)"
proof (cases "0 \<le> x")
  case True
  then show ?thesis by (auto simp: signed_divide_int_def sgn_if)
next
  case False
  then have "x sdiv 1000000000 \<le> 0" by (simp add: signed_divide_int_def)
  with False show ?thesis by simp
qed

section \<open>Properties\<close>

text \<open>
  C25: Only work that can be mined is handed on. A job message reaches the job callback at most
  once and only with a blob that has room for the nonce at offset 39, a 32-byte target and the
  difficulty of that target; when the message is refused the callback was not called, or it threw.
\<close>

theorem apply_job_minable:
  assumes "on_job (mc_cb c) = Some f"
  shows "ensures (apply_job J c j w) (\<lambda>(ok, c', w').
     if ok then \<exists>mj seed. f mj seed (mc_difficulty c') w = (None, w') \<and> nonce_offset mj = 39
        \<and> 39 + 4 \<le> length (blob mj) \<and> length (target mj) = 32
        \<and> c' = c\<lparr>mc_difficulty := target_to_difficulty (target mj)\<rparr>
     else w' = w \<or> (\<exists>mj seed d e. f mj seed d w = (Some (Throw e), w')))"
  unfolding apply_job_def
  by (intro ensures_rules) (use assms job_fields_shape in \<open>fastforce+\<close>)

definition sample_miner :: "pool_world MoneroClient" where
  "sample_miner = (MoneroClient_init ''pool'' 3333 ''u'' ''x'')\<lparr>mc_conn := \<lparr>sock = 3, rx = []\<rparr>,
     mc_cb := record_cb, mc_login_id := 1, mc_next_id := 2\<rparr>"

definition sample_blob :: string where
  "sample_blob = to_hex (replicate 43 1)"

definition sample_target :: string where
  "sample_target = to_hex (replicate 8 0xFF)"

definition job_json :: jv where
  "job_json = JObj [(''blob'', JStr sample_blob), (''target'', JStr sample_target), (''job_id'', JStr ''j1'')]"

lemma job_json_fields: "\<exists>mj. job_fields (jv_api table) job_json = Inr (Some mj) \<and> job_id mj = ''j1''"
proof -
  obtain t where "monero_target_from_hex sample_target = Inr t"
    using monero_target_8 [OF from_hex_to_hex, of "replicate 8 0xFF"] by (auto simp: sample_target_def)
  then show ?thesis
    by (simp add: job_fields_def job_json_def jv_api_def sample_blob_def del: to_hex.simps)
qed

lemma job_json_result:
  "\<exists>mj. job_fields (jv_api table) job_json = Inr (Some mj) \<and> blob mj = replicate 43 1 \<and> nonce_offset mj = 39
     \<and> target mj ! 31 = 0xFF"
proof -
  have "monero_target_from_hex sample_target = Inr (replicate 24 0 @ replicate 8 0xFF)"
    by code_simp
  then show ?thesis
    by (simp add: job_fields_def job_json_def jv_api_def sample_blob_def nth_append del: to_hex.simps)
qed

lemma job_json_seed: "job_seed (jv_api table) job_json = Inr []"
  by (simp add: job_seed_def job_json_def jv_api_def)

lemma sample_apply:
  "\<exists>mj. apply_job (jv_api table) sample_miner job_json w =
     Inr (True, sample_miner\<lparr>mc_difficulty := target_to_difficulty (target mj)\<rparr>, w\<lparr>handed := handed w @ [mj]\<rparr>)"
  using job_json_fields [of table]
  by (auto simp: apply_job_def job_json_seed sample_miner_def record_cb_def Let_def)

theorem apply_job_minable_witness:
  "\<exists>mj. apply_job (jv_api []) sample_miner job_json (quiet_world []) =
     Inr (True, sample_miner\<lparr>mc_difficulty := target_to_difficulty (target mj)\<rparr>,
       (quiet_world [])\<lparr>handed := [mj]\<rparr>)
     \<and> 43 \<le> length (blob mj) \<and> length (target mj) = 32"
proof -
  obtain mj where r: "apply_job (jv_api []) sample_miner job_json (quiet_world []) =
     Inr (True, sample_miner\<lparr>mc_difficulty := target_to_difficulty (target mj)\<rparr>,
       (quiet_world [])\<lparr>handed := [mj]\<rparr>)"
    using sample_apply [of "[]" "quiet_world []"] by (auto simp: quiet_world_def)
  have cb: "on_job (mc_cb sample_miner) = Some (\<lambda>mj seed d w. (None, w\<lparr>handed := handed w @ [mj]\<rparr>))"
    by (simp add: sample_miner_def record_cb_def)
  show ?thesis
    using ensuresD [OF apply_job_minable [OF cb] r] r by (auto simp: quiet_world_def)
qed



text \<open>
  C27: The session flag is exact. The client counts as logged in exactly while it holds the session
  id the pool gave it: this holds after construction and is kept by connecting, disconnecting,
  polling and submitting.
\<close>

theorem monero_session:
  "session_inv (MoneroClient_init host port user pass) \<and>
   (session_inv c \<longrightarrow>
      ensures (monero_connect J S c w) (\<lambda>(ok, c', w'). session_inv c' \<and> (ok \<longrightarrow> monero_connected c' \<and> mc_rpc_id c' \<noteq> [])) \<and>
      ensures (monero_poll J S c t w) (\<lambda>(ok, c', w'). session_inv c') \<and>
      ensures (monero_submit J S c job nonce digest w) (\<lambda>(ok, c', w'). session_inv c') \<and>
      session_inv (fst (monero_disconnect S c w)) \<and> \<not> mc_logged_in (fst (monero_disconnect S c w)))"
proof -
  have "session_inv (MoneroClient_init host port user pass)"
    by (simp add: session_inv_def MoneroClient_init_def)
  moreover have "session_inv (fst (monero_disconnect S c w)) \<and> \<not> mc_logged_in (fst (monero_disconnect S c w))"
    by (auto simp: monero_disconnect_def session_inv_def split: prod.splits)
  moreover have "ensures (monero_connect J S c w)
      (\<lambda>(ok, c', w'). session_inv c' \<and> (ok \<longrightarrow> monero_connected c' \<and> mc_rpc_id c' \<noteq> []))" if "session_inv c"
    using monero_connect_inv [OF that, of J S w] monero_connect_conn [of J S c w]
    by (auto simp: ensures_def session_inv_def)
  ultimately show ?thesis
    by (simp add: monero_poll_inv monero_submit_inv)
qed

theorem monero_session_witness:
  "session_inv sample_miner \<and> \<not> mc_logged_in (fst (monero_disconnect net_api sample_miner (quiet_world [])))"
proof -
  have "session_inv sample_miner" by (simp add: session_inv_def sample_miner_def MoneroClient_init_def)
  then show ?thesis using monero_session [where c = sample_miner and S = net_api and w = "quiet_world []"] by blast
qed

text \<open>
  Keepalives. A keepalive is sent only in a session and only when at least 45 seconds have
  passed since the last one (or since the login); the time of sending is then remembered. Otherwise
  nothing of the client changes.
\<close>

theorem keepalive_spacing:
  "ensures (maybe_keepalive J S c w) (\<lambda>(c', w').
     c' = c \<or>
     mc_logged_in c \<and> mc_rpc_id c \<noteq> [] \<and> mc_last_keepalive c' = fst (os_now S w)
       \<and> 45000000000 \<le> mc_last_keepalive c' - mc_last_keepalive c
       \<and> c' = c\<lparr>mc_last_keepalive := mc_last_keepalive c', mc_next_id := mc_next_id c + 1\<rparr>)"
  unfolding maybe_keepalive_def Let_def keepalive_due
  by (intro ensures_rules) (auto simp: inc_id_def split: if_splits)

text \<open>
  A login reply that has neither an error nor a result is undefined behaviour: the member is
  read with the unchecked subscript of a constant value.
\<close>

theorem login_without_result_undefined:
  assumes "jdump J msg = Inr s" "value_string J msg ''method'' [] = Inr []"
    and "non_null J msg ''id'' = Inr True" "bindR (jfield J msg ''id'') (get_int J) = Inr (mc_login_id c)"
    and "error_text J msg = Inr []" "jfield J msg ''result'' = Inl Undefined"
  shows "handle J c msg w = Inl Undefined"
  using assms by (simp add: handle_def on_login_reply_def)

theorem login_without_result_undefined_witness:
  "handle (jv_api []) sample_miner (JObj [(''id'', JInt 1)]) (quiet_world []) = Inl Undefined"
  by (rule login_without_result_undefined [where s = "''?''"])
    (simp_all add: jv_api_simps non_null_def error_text_def sample_miner_def)

text \<open>
  Submitting. The share is sent under a fresh request number, with the session id, the nonce
  bytes as they stand in the blob and the digest, both recoverable from their hex fields; true
  means that the whole message went out.
\<close>

theorem monero_submit_spec:
  assumes "sockets S sent rcvd" "mc_next_id c \<noteq> 0x7FFFFFFF"
    and "jdump J (monero_submit_msg J (mc_next_id c) (mc_rpc_id c) job nonce digest) = Inr line"
  shows "\<exists>ok w'. monero_submit J S c job nonce digest w =
       Inr (ok, c\<lparr>mc_last_submit_id := mc_next_id c, mc_next_id := mc_next_id c + 1\<rparr>, w')
     \<and> (ok \<longrightarrow> sent (sock (mc_conn c)) w' = sent (sock (mc_conn c)) w @ line @ [newline])
     \<and> from_hex (nonce_hex nonce) = Inr (le32 nonce) \<and> from_hex (to_hex digest) = Inr digest"
proof -
  obtain ok w' part where "send_all S (mc_conn c) (line @ [newline]) w = Inr (ok, w')"
    "sent (sock (mc_conn c)) w' = sent (sock (mc_conn c)) w @ part" "ok \<longrightarrow> part = line @ [newline]"
    using sockets.send_all_result [OF assms(1), of "mc_conn c" "line @ [newline]" w] by (auto split: if_splits)
  then show ?thesis
    using assms(2,3)
    by (simp add: monero_submit_def inc_id_def Let_def monero_send_json_def nonce_hex_le32)
qed

theorem monero_submit_spec_witness:
  "\<exists>ok w'. monero_submit (jv_api []) net_api sample_miner MiningJob_init 7 [1, 2] (quiet_world []) =
       Inr (ok, sample_miner\<lparr>mc_last_submit_id := 2, mc_next_id := 3\<rparr>, w')
     \<and> (ok \<longrightarrow> outbox w' = ''?'' @ [newline])"
proof -
  have d: "jdump (jv_api []) (monero_submit_msg (jv_api []) n r j k g) = Inr ''?''" for n r j k g
    by (simp add: jv_api_def)
  show ?thesis
    using monero_submit_spec [OF net.sockets_axioms, of sample_miner "jv_api []" MiningJob_init 7 "[1, 2]" "''?''" "quiet_world []"] d
    by (auto simp: sample_miner_def quiet_world_def)
qed

end
