(* ===== verification/Format.thy ===== *)
theory Format
  imports Double
begin

text \<open>
  How the standard library prints a \<open>double\<close>: \<open>fmt_fixed\<close> is the conversion \<open>%.<p>f\<close> of \<open>printf\<close>,
  \<open>fmt_g\<close> is \<open>operator<<\<close> of a stream with its default precision (\<open>%g\<close>: six significant digits,
  trailing zeros dropped, scientific notation for exponents below -4 or from 6 on).
\<close>

section \<open>Definitions\<close>

definition pad0 :: "nat \<Rightarrow> string \<Rightarrow> string" where
  "pad0 k s = replicate (k - length s) (CHR ''0'') @ s"

fun fmt_fixed :: "nat \<Rightarrow> double \<Rightarrow> string" where
  "fmt_fixed p (Fin q) =
     (let ds = pad0 (p + 1) (to_string (nat (round_half_even (\<bar>q\<bar> * 10 ^ p))));
          i = length ds - p
      in (if q < 0 then ''-'' else []) @ take i ds @ (if p = 0 then [] else ''.'' @ drop i ds))"
| "fmt_fixed p (Inf neg) = (if neg then ''-inf'' else ''inf'')"
| "fmt_fixed p NaN = ''nan''"

fun ndec :: "nat \<Rightarrow> nat" where
  "ndec n = (if n = 0 then 0 else Suc (ndec (n div 10)))"

declare ndec.simps [simp del]

text \<open>\<open>log10_floor q\<close> is the largest \<open>e\<close> with \<open>10 powi e \<le> q\<close>, for a positive \<open>q\<close>.\<close>

definition log10_floor :: "rat \<Rightarrow> int" where
  "log10_floor q = (if 1 \<le> q then int (ndec (nat \<lfloor>q\<rfloor>)) - 1 else - int (ndec (nat (\<lceil>1 / q\<rceil> - 1))))"

definition strip0 :: "string \<Rightarrow> string" where
  "strip0 s = rev (dropWhile (\<lambda>c. c = CHR ''0'') (rev s))"

text \<open>The six digits \<open>ds\<close> and the exponent \<open>e\<close> as \<open>%g\<close> lays them out.\<close>

definition layout_g :: "string \<Rightarrow> int \<Rightarrow> string" where
  "layout_g ds e =
     (if e < - 4 \<or> 6 \<le> e then
        take 1 ds @ (if drop 1 ds = [] then [] else ''.'' @ drop 1 ds) @ ''e'' @ (if e < 0 then ''-'' else ''+'')
          @ pad0 2 (to_string (nat \<bar>e\<bar>))
      else if e < 0 then ''0.'' @ replicate (nat (- e) - 1) (CHR ''0'') @ ds
      else let k = nat e + 1
        in take k (ds @ replicate k (CHR ''0'')) @ (if drop k ds = [] then [] else ''.'' @ drop k ds))"

fun fmt_g :: "double \<Rightarrow> string" where
  "fmt_g (Fin q) =
     (if q = 0 then ''0''
      else let e = log10_floor \<bar>q\<bar>;
               m = round_half_even (\<bar>q\<bar> * 10 powi (5 - e));
               (m, e) = (if m = 10 ^ 6 then (10 ^ 5, e + 1) else (m, e))
        in (if q < 0 then ''-'' else []) @ layout_g (strip0 (to_string (nat m))) e)"
| "fmt_g (Inf neg) = (if neg then ''-inf'' else ''inf'')"
| "fmt_g NaN = ''nan''"

section \<open>The characters of a number\<close>

lemma pad0_visible: "(\<And>c. c \<in> set s \<Longrightarrow> visible c) \<Longrightarrow> c \<in> set (pad0 k s) \<Longrightarrow> visible c"
  by (auto simp: pad0_def visible_def)

lemma strip0_subset: "set (strip0 s) \<subseteq> set s"
  using set_dropWhileD [of _ "\<lambda>c. c = CHR ''0''" "rev s"] by (auto simp: strip0_def)

lemma layout_g_visible:
  assumes "\<And>c. c \<in> set ds \<Longrightarrow> visible c" "c \<in> set (layout_g ds e)"
  shows "visible c"
proof -
  have "c \<in> set ds \<or> c \<in> set (pad0 2 (to_string (nat \<bar>e\<bar>))) \<or> c \<in> set ''.e-+0''"
    using assms(2) by (auto simp: layout_g_def Let_def dest!: in_set_takeD in_set_dropD split: if_splits)
  then show ?thesis
    using assms(1) pad0_visible [OF to_string_visible] by (auto simp: visible_def)
qed

lemma fmt_g_visible: "c \<in> set (fmt_g x) \<Longrightarrow> visible c"
proof (cases x)
  case (Fin q)
  have "visible c" if "c \<in> set (layout_g (strip0 (to_string n)) e)" for n e
    using layout_g_visible [OF _ that] strip0_subset to_string_visible by blast
  moreover assume "c \<in> set (fmt_g x)"
  ultimately show ?thesis
    using Fin by (auto simp: Let_def visible_def split: prod.splits if_splits)
qed (auto simp: visible_def split: if_splits)

end
