(* ===== verification/Metrics.thy ===== *)
theory Metrics
  imports Format
begin

text \<open>
  The counters and the rolling hash rate (\<open>src/telemetry/metrics.cpp\<close>). A point of time is the
  number of nanoseconds of the steady clock; the time of a call is an argument. Each method is
  one atomic operation, as the mutex and the atomics of the code make it.
\<close>

section \<open>Definitions\<close>

record Metrics =
  mt_hashes :: u64
  mt_accepted :: u64
  mt_rejected :: u64
  mt_difficulty :: double
  mt_start :: int
  mt_last :: int
  mt_last_hashes :: u64
  mt_ema :: double

record Snapshot =
  sn_hashrate :: double
  sn_hashes :: u64
  sn_accepted :: u64
  sn_rejected :: u64
  sn_difficulty :: double
  sn_uptime_s :: double

text \<open>The two initialisers read the clock one after the other.\<close>

definition Metrics_init :: "int \<Rightarrow> int \<Rightarrow> Metrics" where
  "Metrics_init start last0 = \<lparr>mt_hashes = 0, mt_accepted = 0, mt_rejected = 0, mt_difficulty = Fin 0,
     mt_start = start, mt_last = last0, mt_last_hashes = 0, mt_ema = Fin 0\<rparr>"

definition set_total_hashes :: "u64 \<Rightarrow> Metrics \<Rightarrow> Metrics" where
  "set_total_hashes n m = m\<lparr>mt_hashes := n\<rparr>"

definition share_accepted :: "Metrics \<Rightarrow> Metrics" where
  "share_accepted m = m\<lparr>mt_accepted := mt_accepted m + 1\<rparr>"

definition share_rejected :: "Metrics \<Rightarrow> Metrics" where
  "share_rejected m = m\<lparr>mt_rejected := mt_rejected m + 1\<rparr>"

definition set_difficulty :: "double \<Rightarrow> Metrics \<Rightarrow> Metrics" where
  "set_difficulty d m = m\<lparr>mt_difficulty := d\<rparr>"

text \<open>\<open>std::chrono::duration<double>(d).count()\<close> of a difference \<open>d\<close> of two points of time.\<close>

definition seconds :: "int \<Rightarrow> double" where
  "seconds ns = ddiv (rnd (of_int ns)) (Fin 1000000000)"

definition snapshot :: "int \<Rightarrow> Metrics \<Rightarrow> Snapshot \<times> Metrics" where
  "snapshot now m =
     (let hashes = mt_hashes m;
          dt = seconds (now - mt_last m);
          m = (if dlt (Fin 0) dt then
                 (let inst = ddiv (d_of_u64 (hashes - mt_last_hashes m)) dt
                  in m\<lparr>mt_ema := (if mt_ema m = Fin 0 then inst
                                  else dadd (dmul (rnd (6 / 10)) (mt_ema m)) (dmul (rnd (4 / 10)) inst)),
                       mt_last := now, mt_last_hashes := hashes\<rparr>)
               else m)
      in (\<lparr>sn_hashrate = mt_ema m, sn_hashes = hashes, sn_accepted = mt_accepted m, sn_rejected = mt_rejected m,
           sn_difficulty = mt_difficulty m, sn_uptime_s = seconds (now - mt_start m)\<rparr>, m))"

text \<open>The text of one metric, and the whole exposition.\<close>

definition metric :: "string \<Rightarrow> string \<Rightarrow> string \<Rightarrow> string \<Rightarrow> string" where
  "metric name help kind v =
     ''# HELP '' @ name @ '' '' @ help @ [CHR 0x0A] @ ''# TYPE '' @ name @ '' '' @ kind @ [CHR 0x0A]
       @ name @ '' '' @ v @ [CHR 0x0A]"

definition exposition :: "Snapshot \<Rightarrow> string" where
  "exposition s =
     metric ''minerby_hashrate'' ''Current hashrate in hashes per second'' ''gauge'' (fmt_g (sn_hashrate s))
     @ metric ''minerby_hashes_total'' ''Cumulative hashes computed'' ''counter'' (to_string (unat (sn_hashes s)))
     @ metric ''minerby_shares_accepted_total'' ''Accepted shares'' ''counter'' (to_string (unat (sn_accepted s)))
     @ metric ''minerby_shares_rejected_total'' ''Rejected shares'' ''counter'' (to_string (unat (sn_rejected s)))
     @ metric ''minerby_difficulty'' ''Current share difficulty'' ''gauge'' (fmt_g (sn_difficulty s))
     @ metric ''minerby_uptime_seconds'' ''Process uptime'' ''gauge'' (fmt_g (sn_uptime_s s))"

definition prometheus :: "int \<Rightarrow> Metrics \<Rightarrow> string \<times> Metrics" where
  "prometheus now m = (let (s, m) = snapshot now m in (exposition s, m))"

section \<open>Bounded rounding\<close>

lemma rnd_bounded:
  assumes "0 \<le> q" "q \<le> b" "rnd b = Fin b"
  shows "\<exists>r. rnd q = Fin r \<and> 0 \<le> r \<and> r \<le> b"
proof -
  have "dle (Fin 0) (rnd q)" using rnd_mono_nonneg [of 0 q] assms(1) by simp
  moreover have "dle (rnd q) (Fin b)" using rnd_mono_nonneg [of q b] assms by simp
  ultimately show ?thesis by (cases "rnd q") auto
qed

lemma rnd_power: "- 1000 \<le> k \<Longrightarrow> k \<le> 1000 \<Longrightarrow> rnd (2 powi k) = Fin (2 powi k)"
proof (rule rnd_exact [where n = 1 and k = k])
  assume "k \<le> 1000"
  then have "(2 :: rat) powi k \<le> 2 powi 1000" by (rule power_int_increasing) simp
  also have "\<dots> < 2 ^ 1024" by simp
  finally show "(2 :: rat) powi k < 2 ^ 1024" .
qed simp_all

lemma rnd_06: "rnd (6 / 10) = Fin (5404319552844595 / 9007199254740992)"
  using rnd_near [where n = 5404319552844595 and k = "- 53" and q = "6 / 10"] by (simp add: power_int_def power_one_over)

lemma rnd_04: "rnd (4 / 10) = Fin (3602879701896397 / 9007199254740992)"
  using rnd_near [where n = 7205759403792794 and k = "- 54" and q = "4 / 10"] by (simp add: power_int_def power_one_over)

lemma rnd_nonpos: "q \<le> 0 \<Longrightarrow> dle (rnd q) (Fin 0)"
  using rnd_pos_nonneg [of "\<bar>q\<bar>"] by (auto simp: rnd_def Let_def)

lemma seconds_pos:
  assumes "dlt (Fin 0) (seconds ns)"
  shows "dle (Fin (2 powi (- 30))) (seconds ns)"
proof -
  have "0 < ns"
  proof (rule ccontr)
    assume "\<not> 0 < ns"
    then have "dle (rnd (of_int ns)) (Fin 0)" by (intro rnd_nonpos) simp
    then have "dle (seconds ns) (Fin 0)"
      by (cases "rnd (of_int ns)") (auto simp: seconds_def intro!: rnd_nonpos divide_nonpos_pos)
    with assms show False by (simp add: dlt_def)
  qed
  then have "dle (rnd 1) (rnd (of_int ns))" by (intro rnd_mono_nonneg) simp_all
  moreover have "rnd 1 = Fin 1" using rnd_int_exact [of 1] by simp
  ultimately consider x where "rnd (of_int ns) = Fin x" "1 \<le> x" | "rnd (of_int ns) = Inf False"
    by (cases "rnd (of_int ns)") auto
  then show ?thesis
  proof cases
    case 1
    have "(2 :: rat) powi (- 30) \<le> 1 / 1000000000" by simp
    also have "\<dots> \<le> x / 1000000000" using 1 by (simp add: divide_right_mono)
    finally have "dle (rnd (2 powi (- 30))) (rnd (x / 1000000000))" by (intro rnd_mono_nonneg) simp_all
    then show ?thesis using 1 rnd_power [of "- 30"] by (simp add: seconds_def)
  qed (simp add: seconds_def)
qed

section \<open>The rate stays finite\<close>

definition rate_ok :: "double \<Rightarrow> bool" where
  "rate_ok x = (\<exists>r. x = Fin r \<and> 0 \<le> r \<and> r \<le> 2 ^ 100)"

lemma rate_okI: "0 \<le> q \<Longrightarrow> q \<le> 2 ^ 100 \<Longrightarrow> rate_ok (rnd q)"
  using rnd_bounded [of q "2 ^ 100"] rnd_power [of 100] by (auto simp: rate_ok_def)

lemma inst_ok:
  assumes "dlt (Fin 0) (seconds ns)"
  shows "rate_ok (ddiv (d_of_u64 n) (seconds ns))"
proof -
  have "unat n < 2 ^ 64" using unsigned_less [of n, where ?'a = nat] by simp
  then have "(of_nat (unat n) :: rat) < of_nat (2 ^ 64)" by (simp only: of_nat_less_iff)
  moreover have "0 \<le> (of_nat (unat n) :: rat)" by (rule of_nat_0_le_iff)
  ultimately obtain a where a: "d_of_u64 n = Fin a" "0 \<le> a" "a \<le> 2 ^ 64"
    using rnd_bounded [of "of_nat (unat n)" "2 ^ 64"] rnd_power [of 64] by (auto simp: d_of_u64_def)
  show ?thesis
  proof (cases "seconds ns")
    case (Fin d)
    then have d: "2 powi (- 30) \<le> d" using seconds_pos [OF assms] by simp
    then have "a / d \<le> 2 ^ 64 / 2 powi (- 30)"
      using a by (intro frac_le) simp_all
    also have "\<dots> \<le> 2 ^ 100" by simp
    finally have "a / d \<le> 2 ^ 100" .
    moreover have "0 < d" using d by (meson less_le_trans power_int_pos)
    ultimately show ?thesis using a Fin rate_okI [of "a / d"] by simp
  next
    case (Inf neg)
    then show ?thesis using a by (simp add: rate_ok_def)
  next
    case NaN
    then show ?thesis using assms by (simp add: dlt_def)
  qed
qed

lemma scaled_ok:
  assumes "rate_ok x" "0 < n" "n < 2 ^ 53"
  shows "\<exists>r. dmul (Fin (of_int n / 2 ^ 53)) x = Fin r \<and> 0 \<le> r \<and> r \<le> of_int n / 2 ^ 53 * 2 ^ 100"
proof -
  obtain r where r: "x = Fin r" "0 \<le> r" "r \<le> 2 ^ 100" using assms(1) by (auto simp: rate_ok_def)
  let ?c = "of_int n / 2 ^ 53 :: rat"
  have "(of_int n :: rat) < of_int (2 ^ 53)" using assms(3) by (simp only: of_int_less_iff)
  then have "?c * 2 ^ 100 < 2 ^ 1024" by simp
  then have "rnd (?c * 2 ^ 100) = Fin (?c * 2 ^ 100)"
    using assms(2,3) by (intro rnd_exact [where n = n and k = 47]) simp_all
  moreover have "?c * r \<le> ?c * 2 ^ 100" using r assms(2) by (intro mult_left_mono) simp_all
  ultimately show ?thesis using rnd_bounded [of "?c * r" "?c * 2 ^ 100"] r assms(2) by simp
qed

lemma ema_ok:
  assumes "rate_ok x" "rate_ok y"
  shows "rate_ok (dadd (dmul (rnd (6 / 10)) x) (dmul (rnd (4 / 10)) y))"
proof -
  obtain a where a: "dmul (Fin (5404319552844595 / 9007199254740992)) x = Fin a" "0 \<le> a"
      "a \<le> 5404319552844595 / 9007199254740992 * 2 ^ 100"
    using scaled_ok [OF assms(1), of 5404319552844595] by auto
  obtain b where b: "dmul (Fin (3602879701896397 / 9007199254740992)) y = Fin b" "0 \<le> b"
      "b \<le> 3602879701896397 / 9007199254740992 * 2 ^ 100"
    using scaled_ok [OF assms(2), of 3602879701896397] by auto
  show ?thesis using a b rate_okI [of "a + b"] unfolding rnd_06 rnd_04 by simp
qed

lemma snapshot_ok: "rate_ok (mt_ema m) \<Longrightarrow> rate_ok (mt_ema (snd (snapshot now m)))"
  using inst_ok ema_ok by (simp add: snapshot_def Let_def)

section \<open>Reading the exposition back\<close>

text \<open>
  The lines of a text, and the samples of a text in the Prometheus format: the lines that are
  not comments, each a name, a space and a value.
\<close>

fun split_at :: "char \<Rightarrow> string \<Rightarrow> string list" where
  "split_at c [] = [[]]"
| "split_at c (x # xs) = (if x = c then [] # split_at c xs
     else case split_at c xs of [] \<Rightarrow> [[x]] | y # ys \<Rightarrow> (x # y) # ys)"

definition samples :: "string \<Rightarrow> (string \<times> string) list" where
  "samples text = map (\<lambda>l. (takeWhile (\<lambda>c. c \<noteq> CHR '' '') l, tl (dropWhile (\<lambda>c. c \<noteq> CHR '' '') l)))
     (filter (\<lambda>l. l \<noteq> [] \<and> hd l \<noteq> CHR ''#'') (split_at (CHR 0x0A) text))"

lemma split_at_line: "c \<notin> set l \<Longrightarrow> split_at c (l @ c # rest) = l # split_at c rest"
  by (induction l) auto

lemma samples_metric:
  assumes "CHR 0x0A \<notin> set name" "CHR 0x0A \<notin> set help" "CHR 0x0A \<notin> set kind" "CHR 0x0A \<notin> set v"
    and "CHR '' '' \<notin> set name" "name \<noteq> []" "hd name \<noteq> CHR ''#''"
  shows "samples (metric name help kind v @ rest) = (name, v) # samples rest"
proof -
  have "split_at (CHR 0x0A) (metric name help kind v @ rest) =
     [''# HELP '' @ name @ '' '' @ help, ''# TYPE '' @ name @ '' '' @ kind, name @ '' '' @ v]
       @ split_at (CHR 0x0A) rest"
    using assms(1-4)
      split_at_line [of "CHR 0x0A" "''# HELP '' @ name @ '' '' @ help"
        "''# TYPE '' @ name @ '' '' @ kind @ CHR 0x0A # name @ '' '' @ v @ CHR 0x0A # rest"]
      split_at_line [of "CHR 0x0A" "''# TYPE '' @ name @ '' '' @ kind" "name @ '' '' @ v @ CHR 0x0A # rest"]
      split_at_line [of "CHR 0x0A" "name @ '' '' @ v" rest]
    by (simp add: metric_def)
  moreover have "takeWhile (\<lambda>c. c \<noteq> CHR '' '') (name @ '' '' @ v) = name"
    and "tl (dropWhile (\<lambda>c. c \<noteq> CHR '' '') (name @ '' '' @ v)) = v"
    using assms(5) by (induction name) auto
  ultimately show ?thesis using assms(6,7) by (simp add: samples_def)
qed

lemma newline_not_visible: "\<not> visible (CHR 0x0A)"
  by (simp add: visible_def)

lemma times_06: "dmul (rnd (6 / 10)) (Fin 1000) = Fin 600" "dmul (rnd (6 / 10)) (Fin 600) = Fin 360"
  using rnd_near [where n = "600 * 2 ^ 43" and k = "- 43" and q = "5404319552844595 / 9007199254740992 * 1000"]
    rnd_near [where n = "360 * 2 ^ 44" and k = "- 44" and q = "5404319552844595 / 9007199254740992 * 600"]
  unfolding rnd_06 by simp_all

lemma times_04: "dmul (rnd (4 / 10)) (Fin 1000) = Fin 400" "dmul (rnd (4 / 10)) (Fin 0) = Fin 0"
  using rnd_near [where n = "400 * 2 ^ 44" and k = "- 44" and q = "3602879701896397 / 9007199254740992 * 1000"]
  unfolding rnd_04 by simp_all

lemma times_04_large:
  "\<exists>x. dmul (rnd (4 / 10)) (Fin 2560000) = Fin x \<and> 1000001 \<le> x \<and> x \<le> 2 ^ 100"
proof -
  let ?q = "3602879701896397 / 9007199254740992 * 2560000 :: rat"
  have "dle (rnd 1000001) (rnd ?q)" by (rule rnd_mono_nonneg) simp_all
  moreover have "rnd 1000001 = Fin 1000001" using rnd_int_exact [of 1000001] by simp
  ultimately show ?thesis
    using rnd_bounded [of ?q "2 ^ 100"] rnd_power [of 100] unfolding rnd_04 by auto
qed

section \<open>Properties\<close>

datatype metrics_op =
    Set_total u64 | Accepted | Rejected | Set_diff double | Take_snapshot int | Scrape int

fun apply_op :: "metrics_op \<Rightarrow> Metrics \<Rightarrow> Metrics" where
  "apply_op (Set_total n) m = set_total_hashes n m"
| "apply_op Accepted m = share_accepted m"
| "apply_op Rejected m = share_rejected m"
| "apply_op (Set_diff d) m = set_difficulty d m"
| "apply_op (Take_snapshot t) m = snd (snapshot t m)"
| "apply_op (Scrape t) m = snd (prometheus t m)"

text \<open>
  C32: The hash rate is always a finite number that is not negative. Whatever totals are set and
  at whatever times snapshots or scrapes are taken, a clock that stands still or a counter that
  runs backwards included, the average never becomes infinite, negative or not a number.
\<close>

theorem metrics_rate_finite:
  "\<exists>r. sn_hashrate (fst (snapshot now (fold apply_op ops (Metrics_init t0 t1)))) = Fin r \<and> 0 \<le> r \<and> r \<le> 2 ^ 100"
proof -
  have "rate_ok (mt_ema (apply_op op m))" if "rate_ok (mt_ema m)" for op m
    using that snapshot_ok
    by (cases op) (auto simp: set_total_hashes_def share_accepted_def share_rejected_def set_difficulty_def
        prometheus_def Let_def split_beta)
  then have "rate_ok (mt_ema (fold apply_op ops m))" if "rate_ok (mt_ema m)" for m
    using that by (induction ops arbitrary: m) auto
  then have "rate_ok (mt_ema (fold apply_op ops (Metrics_init t0 t1)))"
    by (simp add: Metrics_init_def rate_ok_def)
  from snapshot_ok [OF this] show ?thesis by (simp add: rate_ok_def snapshot_def Let_def)
qed

definition status_line :: "int \<Rightarrow> u64 \<Rightarrow> Metrics \<Rightarrow> Snapshot \<times> Metrics" where
  "status_line now n m = snapshot now (set_total_hashes n m)"

text \<open>
  A scrape of the metrics endpoint distorts the rate. The total is stored only with the status
  line, every five seconds, while every scrape closes the averaging window: a scrape just before
  a status line credits the work of five seconds to the last moment. With a steady 1000 hashes
  a second and no scrape the second status line says 1000; with a scrape two milliseconds
  before, it says more than a million.
\<close>

theorem scrape_distorts_rate:
  "(let m = snd (status_line 5000000000 5000 (Metrics_init 0 0))
    in sn_hashrate (fst (status_line 10000000000 10000 m)) = Fin 1000 \<and>
       dlt (Fin 1000000) (sn_hashrate (fst (status_line 10000000000 10000 (snd (prometheus 9998046875 m))))))"
proof -
  have ints: "rnd 5000000000 = Fin 5000000000" "rnd 4998046875 = Fin 4998046875" "rnd 1953125 = Fin 1953125"
    "rnd 5 = Fin 5" "rnd 5000 = Fin 5000" "rnd 1000 = Fin 1000" "rnd 2560000 = Fin 2560000" "rnd 600 = Fin 600"
    by (rule rnd_int_exact [where n = 5000000000, simplified] rnd_int_exact [where n = 4998046875, simplified]
        rnd_int_exact [where n = 1953125, simplified] rnd_int_exact [where n = 5, simplified]
        rnd_int_exact [where n = 5000, simplified] rnd_int_exact [where n = 1000, simplified]
        rnd_int_exact [where n = 2560000, simplified] rnd_int_exact [where n = 600, simplified])+
  have "rnd (2559 / 512) = Fin (2559 / 512)" "rnd (1 / 512) = Fin (1 / 512)"
    by (rule rnd_exact [where n = 2559 and k = "- 9"], simp_all)
      (rule rnd_exact [where n = 1 and k = "- 9"], simp_all)
  with ints have s: "seconds 5000000000 = Fin 5" "seconds 4998046875 = Fin (2559 / 512)"
    "seconds 1953125 = Fin (1 / 512)"
    by (simp_all add: seconds_def)
  note mul = times_06 times_04
  let ?m1 = "\<lparr>mt_hashes = 5000, mt_accepted = 0, mt_rejected = 0, mt_difficulty = Fin 0, mt_start = 0,
     mt_last = 5000000000, mt_last_hashes = 5000, mt_ema = Fin 1000\<rparr>"
  have m1: "snd (status_line 5000000000 5000 (Metrics_init 0 0)) = ?m1"
    using ints by (simp add: status_line_def snapshot_def set_total_hashes_def Metrics_init_def Let_def d_of_u64_def s)
  have "sn_hashrate (fst (status_line 10000000000 10000 ?m1)) = Fin 1000"
    using ints mul(1,3) by (simp add: status_line_def snapshot_def set_total_hashes_def Let_def d_of_u64_def s
        del: dmul.simps)
  moreover have "snd (prometheus 9998046875 ?m1) = ?m1\<lparr>mt_ema := Fin 600, mt_last := 9998046875\<rparr>"
    using ints mul(1,4) by (simp add: prometheus_def snapshot_def Let_def split_beta d_of_u64_def s del: dmul.simps)
  moreover have "dlt (Fin 1000000)
     (sn_hashrate (fst (status_line 10000000000 10000 (?m1\<lparr>mt_ema := Fin 600, mt_last := 9998046875\<rparr>))))"
  proof -
    have "sn_hashrate (fst (status_line 10000000000 10000 (?m1\<lparr>mt_ema := Fin 600, mt_last := 9998046875\<rparr>)))
        = dadd (Fin 360) (dmul (rnd (4 / 10)) (Fin 2560000))"
      using ints mul(2) by (simp add: status_line_def snapshot_def set_total_hashes_def Let_def d_of_u64_def s
          del: dmul.simps)
    moreover obtain x where x: "dmul (rnd (4 / 10)) (Fin 2560000) = Fin x" "1000001 \<le> x" "x \<le> 2 ^ 100"
      using times_04_large by blast
    moreover have "dle (rnd 1000001) (rnd (360 + x))" using x by (intro rnd_mono_nonneg) simp_all
    moreover have "rnd 1000001 = Fin 1000001" using rnd_int_exact [of 1000001] by simp
    ultimately show ?thesis by (cases "rnd (360 + x)") (auto simp: dlt_def simp del: dmul.simps)
  qed
  ultimately show ?thesis unfolding m1 by (simp add: Let_def)
qed

text \<open>
  The exposition carries the snapshot. Read as Prometheus text, the body of a scrape has exactly
  the six metrics in order, each with its value; the three counters are exact.
\<close>

theorem prometheus_samples:
  "(let (text, m') = prometheus now m; s = fst (snapshot now m) in
     samples text = [(''minerby_hashrate'', fmt_g (sn_hashrate s)),
       (''minerby_hashes_total'', to_string (unat (mt_hashes m))),
       (''minerby_shares_accepted_total'', to_string (unat (mt_accepted m))),
       (''minerby_shares_rejected_total'', to_string (unat (mt_rejected m))),
       (''minerby_difficulty'', fmt_g (mt_difficulty m)),
       (''minerby_uptime_seconds'', fmt_g (seconds (now - mt_start m)))] \<and>
     m' = snd (snapshot now m))"
proof -
  have nl: "CHR 0x0A \<notin> set (fmt_g x)" "CHR 0x0A \<notin> set (to_string n)" for x n
    using fmt_g_visible to_string_visible newline_not_visible by blast+
  have "sn_hashes (fst (snapshot now m)) = mt_hashes m" "sn_accepted (fst (snapshot now m)) = mt_accepted m"
    "sn_rejected (fst (snapshot now m)) = mt_rejected m" "sn_difficulty (fst (snapshot now m)) = mt_difficulty m"
    "sn_uptime_s (fst (snapshot now m)) = seconds (now - mt_start m)"
    by (simp_all add: snapshot_def Let_def)
  moreover have "samples [] = []" by (simp add: samples_def)
  ultimately show ?thesis
    using samples_metric [where rest = "[]"] nl
    by (simp add: prometheus_def exposition_def Let_def split_beta samples_metric)
qed

end
