(* ===== verification/Http.thy ===== *)
theory Http
  imports Tcp
begin

text \<open>
  The metrics endpoint (\<open>src/telemetry/http_server.cpp\<close>, the branch for POSIX sockets). The system
  calls are the fields of \<open>listen_api\<close>. The server thread shares \<open>running_\<close> and \<open>listen_sock_\<close> with
  \<open>stop\<close>: its loop takes the values it reads of them, in order, as an argument, so that every
  interleaving with \<open>stop\<close> is some list of readings.
\<close>

section \<open>Definitions\<close>

record 'o listen_api =
  ls_socket :: "'o \<Rightarrow> i32 \<times> 'o"
  ls_reuseaddr :: "i32 \<Rightarrow> 'o \<Rightarrow> 'o"
  ls_bind :: "i32 \<Rightarrow> u16 \<Rightarrow> 'o \<Rightarrow> int \<times> 'o"      \<comment> \<open>to the loopback address\<close>
  ls_listen :: "i32 \<Rightarrow> 'o \<Rightarrow> int \<times> 'o"
  ls_accept :: "i32 \<Rightarrow> 'o \<Rightarrow> i32 \<times> 'o"
  ls_recv :: "i32 \<Rightarrow> nat \<Rightarrow> 'o \<Rightarrow> string option \<times> 'o"  \<comment> \<open>\<open>None\<close> is a result below 0\<close>
  ls_send :: "i32 \<Rightarrow> string \<Rightarrow> 'o \<Rightarrow> 'o"             \<comment> \<open>one call, its result is not looked at\<close>
  ls_close :: "i32 \<Rightarrow> 'o \<Rightarrow> 'o"

record HttpServer =
  hs_port :: u16
  hs_running :: bool
  hs_listen_sock :: i32

definition HttpServer_init :: "u16 \<Rightarrow> HttpServer" where
  "HttpServer_init port = \<lparr>hs_port = port, hs_running = False, hs_listen_sock = kInvalid\<rparr>"

definition crlf :: string where
  "crlf = [CHR 0x0D, CHR 0x0A]"

definition http_response :: "nat \<Rightarrow> string \<Rightarrow> string \<Rightarrow> string \<Rightarrow> string" where
  "http_response code status content_type body =
     ''HTTP/1.1 '' @ to_string code @ '' '' @ status @ crlf @
     ''Content-Type: '' @ content_type @ crlf @
     ''Content-Length: '' @ to_string (length body) @ crlf @
     ''Connection: close'' @ crlf @ crlf @ body"

text \<open>\<open>req.rfind(p, 0) == 0\<close>.\<close>

definition starts_with :: "string \<Rightarrow> string \<Rightarrow> bool" where
  "starts_with p s = (take (length p) s = p)"

definition route :: "('o \<Rightarrow> string \<times> 'o) \<Rightarrow> string \<Rightarrow> 'o \<Rightarrow> string \<times> 'o" where
  "route body_provider req w =
     (if starts_with ''GET /metrics'' req then
        (let (body, w) = body_provider w in (http_response 200 ''OK'' ''text/plain; version=0.0.4'' body, w))
      else if starts_with ''GET /healthz'' req then (http_response 200 ''OK'' ''text/plain'' ''ok'', w)
      else (http_response 404 ''Not Found'' ''text/plain'' (''not found'' @ [CHR 0x0A]), w))"

definition http_start :: "'o listen_api \<Rightarrow> HttpServer \<Rightarrow> 'o \<Rightarrow> bool \<times> HttpServer \<times> 'o" where
  "http_start L h w =
     (let (s, w) = ls_socket L w in
      if s = kInvalid then (False, h, w)
      else
        let w = ls_reuseaddr L s w;
            (bound, w) = ls_bind L s (hs_port h) w;
            (listening, w) = (if bound \<noteq> 0 then (- 1, w) else ls_listen L s w)
        in if bound \<noteq> 0 \<or> listening \<noteq> 0 then (False, h, ls_close L s w)
           else (True, h\<lparr>hs_listen_sock := s, hs_running := True\<rparr>, w))"

text \<open>\<open>stop\<close> up to the join of the server thread.\<close>

definition http_stop :: "'o listen_api \<Rightarrow> HttpServer \<Rightarrow> 'o \<Rightarrow> HttpServer \<times> 'o" where
  "http_stop L h w =
     (if \<not> hs_running h then (h, w)
      else
        let h = h\<lparr>hs_running := False\<rparr> in
        if hs_listen_sock h \<noteq> kInvalid then
          (h\<lparr>hs_listen_sock := kInvalid\<rparr>, ls_close L (hs_listen_sock h) w)
        else (h, w))"

text \<open>One accepted connection.\<close>

definition serve :: "'o listen_api \<Rightarrow> ('o \<Rightarrow> string \<times> 'o) \<Rightarrow> i32 \<Rightarrow> 'o \<Rightarrow> 'o" where
  "serve L body_provider c w =
     (let (r, w) = ls_recv L c 2047 w;
          req = (case r of None \<Rightarrow> [] | Some bs \<Rightarrow> bs);
          (resp, w) = route body_provider req w
      in ls_close L c (ls_send L c resp w))"

text \<open>
  The server loop over the readings of one iteration each: \<open>running_\<close> at the loop's test,
  \<open>listen_sock_\<close>, and \<open>running_\<close> after a failed \<open>accept\<close>. The flag tells whether the loop has ended.
\<close>

fun http_run :: "'o listen_api \<Rightarrow> ('o \<Rightarrow> string \<times> 'o) \<Rightarrow> (bool \<times> i32 \<times> bool) list \<Rightarrow> 'o \<Rightarrow> bool \<times> 'o" where
  "http_run L body_provider [] w = (False, w)"
| "http_run L body_provider ((running1, ls, running2) # rs) w =
     (if \<not> running1 then (True, w)
      else
        let (c, w) = ls_accept L ls w in
        if c = kInvalid then (if \<not> running2 then (True, w) else http_run L body_provider rs w)
        else http_run L body_provider rs (serve L body_provider c w))"

section \<open>Reading a response\<close>

text \<open>
  A client's view: the first line of a text that ends in CRLF, and the lines up to the empty one
  with what follows it.
\<close>

fun first_line :: "string \<Rightarrow> (string \<times> string) option" where
  "first_line (a # b # s) =
     (if a = CHR 0x0D \<and> b = CHR 0x0A then Some ([], s)
      else map_option (\<lambda>(l, r). (a # l, r)) (first_line (b # s)))"
| "first_line _ = None"

lemma first_line_shorter: "first_line s = Some (l, r) \<Longrightarrow> length r < length s"
  by (induction s arbitrary: l r rule: first_line.induct) (auto split: if_splits)

function read_head :: "string \<Rightarrow> (string list \<times> string) option" where
  "read_head s =
     (case first_line s of
        None \<Rightarrow> None
      | Some (l, r) \<Rightarrow> if l = [] then Some ([], r) else map_option (\<lambda>(ls, b). (l # ls, b)) (read_head r))"
  by pat_completeness auto
termination
  by (relation "measure length") (auto dest: first_line_shorter)

declare read_head.simps [simp del]

lemma first_line_crlf: "CHR 0x0D \<notin> set l \<Longrightarrow> first_line (l @ crlf @ r) = Some (l, r)"
proof (induction l)
  case Nil
  then show ?case by (simp add: crlf_def)
next
  case (Cons a l)
  then show ?case by (cases "l @ crlf @ r") (auto simp: crlf_def)
qed

lemma read_head_line:
  "CHR 0x0D \<notin> set l \<Longrightarrow> l \<noteq> [] \<Longrightarrow>
     read_head (l @ crlf @ r) = map_option (\<lambda>(ls, b). (l # ls, b)) (read_head r)"
  by (subst read_head.simps) (simp add: first_line_crlf)

lemma read_head_end: "read_head (crlf @ r) = Some ([], r)"
  using first_line_crlf [of "[]" r] by (subst read_head.simps) simp

lemma cr_not_digit: "CHR 0x0D \<notin> set (to_string n)"
  using to_string_visible [of "CHR 0x0D" n] by (auto simp: visible_def)

lemma read_http_response:
  assumes "CHR 0x0D \<notin> set status" "CHR 0x0D \<notin> set content_type"
  shows "read_head (http_response code status content_type body) =
     Some ([''HTTP/1.1 '' @ to_string code @ '' '' @ status, ''Content-Type: '' @ content_type,
            ''Content-Length: '' @ to_string (length body), ''Connection: close''], body)"
proof -
  have "http_response code status content_type body =
     (''HTTP/1.1 '' @ to_string code @ '' '' @ status) @ crlf @ (''Content-Type: '' @ content_type) @ crlf @
     (''Content-Length: '' @ to_string (length body)) @ crlf @ ''Connection: close'' @ crlf @ crlf @ body"
    by (simp add: http_response_def)
  then show ?thesis
    using assms cr_not_digit by (simp add: read_head_line read_head_end del: append_assoc append_Cons append.simps)
qed

section \<open>Descriptors\<close>

text \<open>What the server relies on: which calls open and close a descriptor of the process.\<close>

locale listen_sockets =
  fixes L :: "'o listen_api"
    and held :: "'o \<Rightarrow> i32 set"
  assumes socket_held: "ls_socket L w = (s, w') \<Longrightarrow> held w' = held w \<union> (if s = kInvalid then {} else {s})"
    and socket_fresh: "ls_socket L w = (s, w') \<Longrightarrow> s \<notin> held w"
    and accept_held: "ls_accept L ls w = (c, w') \<Longrightarrow> held w' = held w \<union> (if c = kInvalid then {} else {c})"
    and accept_fresh: "ls_accept L ls w = (c, w') \<Longrightarrow> c \<notin> held w"
    and close_held: "held (ls_close L s w) = held w - {s}"
    and reuseaddr_held: "held (ls_reuseaddr L s w) = held w"
    and bind_held: "ls_bind L s port w = (r, w') \<Longrightarrow> held w' = held w"
    and listen_held: "ls_listen L s w = (r, w') \<Longrightarrow> held w' = held w"
    and recv_held: "ls_recv L s n w = (b, w') \<Longrightarrow> held w' = held w"
    and send_held: "held (ls_send L s resp w) = held w"
begin

lemma start_held:
  assumes "http_start L h w = (ok, h', w')"
  shows "held w' = held w \<union> (if ok then {hs_listen_sock h'} else {}) \<and> hs_running h' = (ok \<or> hs_running h)"
proof -
  obtain s w1 where s: "ls_socket L w = (s, w1)" by (metis surj_pair)
  obtain b w2 where b: "ls_bind L s (hs_port h) (ls_reuseaddr L s w1) = (b, w2)" by (metis surj_pair)
  obtain l w3 where l: "ls_listen L s w2 = (l, w3)" by (metis surj_pair)
  have "held w3 = held w1" "held w2 = held w1"
    using bind_held [OF b] listen_held [OF l] reuseaddr_held by simp_all
  moreover have "s \<noteq> kInvalid \<Longrightarrow> held w1 = insert s (held w)" "s = kInvalid \<Longrightarrow> held w1 = held w"
    using socket_held [OF s] by simp_all
  moreover have "held (ls_close L s w2) = held w" "held (ls_close L s w3) = held w" if "s \<noteq> kInvalid"
    using that calculation socket_fresh [OF s] by (simp_all add: close_held)
  ultimately show ?thesis
    using assms s b l
    by (cases "s = kInvalid"; cases "b = 0"; cases "l = 0") (simp_all add: http_start_def, clarsimp+)
qed

lemma serve_held:
  assumes "\<And>w. held (snd (body_provider w)) = held w"
  shows "held (serve L body_provider c w) = held w - {c}"
proof -
  obtain r w1 where r: "ls_recv L c 2047 w = (r, w1)" by (metis surj_pair)
  have "held (snd (route body_provider req v)) = held v" for req v
    using assms [of v] by (simp add: route_def split_beta)
  then show ?thesis
    using recv_held [OF r] r by (simp add: serve_def split_beta Let_def close_held send_held)
qed

lemma run_held:
  assumes "\<And>w. held (snd (body_provider w)) = held w"
  shows "held (snd (http_run L body_provider rs w)) = held w"
proof (induction rs arbitrary: w)
  case Nil
  then show ?case by simp
next
  case (Cons r rs)
  obtain running1 ls running2 where r: "r = (running1, ls, running2)" by (cases r)
  obtain c w1 where c: "ls_accept L ls w = (c, w1)" by (metis surj_pair)
  have "held (snd (http_run L body_provider rs (serve L body_provider c w1))) = held w" if "c \<noteq> kInvalid"
    using Cons.IH [of "serve L body_provider c w1"] serve_held [OF assms] accept_held [OF c] accept_fresh [OF c] that
    by auto
  then show ?case using Cons.IH [of w1] accept_held [OF c] c r by simp
qed

end

section \<open>A scripted listener\<close>

text \<open>It gives the listening socket the number 3 and each pending request the number 4.\<close>

record port_world =
  requests :: "string list"
  replies :: "string list"
  sockets_held :: "i32 list"
  port_taken :: bool

definition port_api :: "port_world listen_api" where
  "port_api = \<lparr>
     ls_socket = (\<lambda>w. if 3 \<in> set (sockets_held w) then (kInvalid, w)
        else (3, w\<lparr>sockets_held := 3 # sockets_held w\<rparr>)),
     ls_reuseaddr = (\<lambda>s w. w),
     ls_bind = (\<lambda>s port w. (if port_taken w then - 1 else 0, w)),
     ls_listen = (\<lambda>s w. (0, w)),
     ls_accept = (\<lambda>ls w. if requests w = [] \<or> 4 \<in> set (sockets_held w) then (kInvalid, w)
        else (4, w\<lparr>sockets_held := 4 # sockets_held w\<rparr>)),
     ls_recv = (\<lambda>s n w. case requests w of [] \<Rightarrow> (None, w) | q # qs \<Rightarrow> (Some (take n q), w\<lparr>requests := qs\<rparr>)),
     ls_send = (\<lambda>s resp w. w\<lparr>replies := replies w @ [resp]\<rparr>),
     ls_close = (\<lambda>s w. w\<lparr>sockets_held := removeAll s (sockets_held w)\<rparr>)\<rparr>"

interpretation port: listen_sockets port_api "\<lambda>w. set (sockets_held w) - {kInvalid}"
  by unfold_locales (auto simp: port_api_def kInvalid_def split: if_splits list.splits)

section \<open>Properties\<close>

text \<open>
  C33: Every answer is a well-formed HTTP message. Read by a client, the answer to any request has
  a status line and three header lines, and what follows the empty line is the body, of exactly
  the length the header gives. A request that begins with \<open>GET /metrics\<close> gets the provider's text,
  one that begins with \<open>GET /healthz\<close> gets \<open>ok\<close>, every other one 404; only the first calls the
  provider.
\<close>

theorem http_answer:
  "(let (resp, w') = route body_provider req w;
        (code, status, ctype, body, w'') =
          (if starts_with ''GET /metrics'' req then
             (200, ''OK'', ''text/plain; version=0.0.4'', fst (body_provider w), snd (body_provider w))
           else if starts_with ''GET /healthz'' req then (200, ''OK'', ''text/plain'', ''ok'', w)
           else (404, ''Not Found'', ''text/plain'', ''not found'' @ [CHR 0x0A], w))
    in read_head resp = Some ([''HTTP/1.1 '' @ to_string code @ '' '' @ status, ''Content-Type: '' @ ctype,
           ''Content-Length: '' @ to_string (length body), ''Connection: close''], body)
       \<and> dec_value (to_string (length body)) = length body \<and> w' = w'')"
  by (simp add: route_def read_http_response split_beta)

text \<open>
  C34: The endpoint leaks no descriptor. After \<open>start\<close> the process holds one descriptor more exactly
  when it returned true, the listening socket; a port that cannot be bound leaves none behind.
  However many requests are served, and whatever the server thread reads of the state it shares
  with \<open>stop\<close>, every accepted connection is closed again.
\<close>

theorem http_no_leak:
  assumes "listen_sockets L held" "\<And>w. held (snd (body_provider w)) = held w"
    and "http_start L h w = (ok, h', w')"
  shows "held w' = held w \<union> (if ok then {hs_listen_sock h'} else {}) \<and>
     held (snd (http_run L body_provider rs w')) = held w'"
  using listen_sockets.start_held [OF assms(1,3)] listen_sockets.run_held [OF assms(1,2)] by simp

theorem http_no_leak_witness:
  "case http_start port_api (HttpServer_init 9100)
      \<lparr>requests = [''GET /healthz HTTP/1.1'', ''GET /x''], replies = [], sockets_held = [], port_taken = False\<rparr> of
    (ok, h', w') \<Rightarrow> ok \<and>
      set (sockets_held (snd (http_run port_api (\<lambda>w. (''m'', w)) [(True, 3, True), (True, 3, True), (False, 3, True)] w')))
        - {kInvalid} = {3}"
proof -
  let ?w = "\<lparr>requests = [''GET /healthz HTTP/1.1'', ''GET /x''], replies = [], sockets_held = [], port_taken = False\<rparr>"
  obtain ok h' w' where r: "http_start port_api (HttpServer_init 9100) ?w = (ok, h', w')"
      "ok" "hs_listen_sock h' = 3"
    by (auto simp: http_start_def port_api_def kInvalid_def)
  show ?thesis
    using http_no_leak [OF port.listen_sockets_axioms _ r(1), of "\<lambda>w. (''m'', w)"
        "[(True, 3, True), (True, 3, True), (False, 3, True)]"] r
    by (simp add: kInvalid_def)
qed

end
