(* ===== verification/Stats.thy ===== *)
theory Stats
  imports Json
begin

text \<open>
  The totals that persist across restarts (\<open>src/telemetry/stats_store.cpp\<close>). The calls of the
  file system are the fields of \<open>fs_api\<close>; the locale \<open>files\<close> states what reading back a file relies
  on, over the contents of the files of a world. A path reaches the file system as a C string.
\<close>

section \<open>Definitions\<close>

record 'o fs_api =
  fs_read :: "string \<Rightarrow> 'o \<Rightarrow> string option \<times> 'o"       \<comment> \<open>an \<open>ifstream\<close>: \<open>None\<close> when it cannot be opened\<close>
  fs_truncate :: "string \<Rightarrow> 'o \<Rightarrow> bool \<times> 'o"           \<comment> \<open>an \<open>ofstream\<close> opened with \<open>trunc\<close>\<close>
  fs_write :: "string \<Rightarrow> string \<Rightarrow> 'o \<Rightarrow> 'o"             \<comment> \<open>writing to it and closing it\<close>
  fs_remove :: "string \<Rightarrow> 'o \<Rightarrow> 'o"
  fs_rename :: "string \<Rightarrow> string \<Rightarrow> 'o \<Rightarrow> bool \<times> 'o"

record LifetimeStats =
  ls_accepted :: u64
  ls_rejected :: u64
  ls_hashes :: u64
  ls_uptime_s :: double
  ls_sessions :: u64

definition LifetimeStats_init :: LifetimeStats where
  "LifetimeStats_init = \<lparr>ls_accepted = 0, ls_rejected = 0, ls_hashes = 0, ls_uptime_s = Fin 0, ls_sessions = 0\<rparr>"

definition stats_fields :: "'j json_api \<Rightarrow> 'j \<Rightarrow> LifetimeStats res" where
  "stats_fields J j =
     bindR (value_u64 J j ''accepted'' 0) (\<lambda>a.
     bindR (value_u64 J j ''rejected'' 0) (\<lambda>r.
     bindR (value_u64 J j ''hashes'' 0) (\<lambda>h.
     bindR (value_double J j ''uptime_s'' (Fin 0)) (\<lambda>u.
     bindR (value_u64 J j ''sessions'' 0) (\<lambda>n.
       Inr \<lparr>ls_accepted = a, ls_rejected = r, ls_hashes = h, ls_uptime_s = u, ls_sessions = n\<rparr>)))))"

definition load :: "'j json_api \<Rightarrow> 'o fs_api \<Rightarrow> string \<Rightarrow> 'o \<Rightarrow> (LifetimeStats \<times> 'o) res" where
  "load J F path w =
     (case fs_read F (c_str path) w of
        (None, w) \<Rightarrow> Inr (LifetimeStats_init, w)
      | (Some body, w) \<Rightarrow>
          bindR (catchR (bindR (jread J body) (stats_fields J)) (\<lambda>e. Inr LifetimeStats_init)) (\<lambda>s. Inr (s, w)))"

definition stats_json :: "'j json_api \<Rightarrow> LifetimeStats \<Rightarrow> 'j" where
  "stats_json J s = jobject J
     [(''accepted'', ju64 J (ls_accepted s)), (''rejected'', ju64 J (ls_rejected s)),
      (''hashes'', ju64 J (ls_hashes s)), (''uptime_s'', jdouble J (ls_uptime_s s)),
      (''sessions'', ju64 J (ls_sessions s))]"

text \<open>\<open>save\<close> has three effects on the file system, in this order.\<close>

definition save_write :: "'j json_api \<Rightarrow> 'o fs_api \<Rightarrow> string \<Rightarrow> LifetimeStats \<Rightarrow> 'o \<Rightarrow> (bool \<times> 'o) res" where
  "save_write J F path s w =
     (let tmp = path @ ''.tmp'' in
      case fs_truncate F (c_str tmp) w of
        (False, w) \<Rightarrow> Inr (False, w)
      | (True, w) \<Rightarrow>
          bindR (jdump2 J (stats_json J s)) (\<lambda>body.
            Inr (True, fs_write F (c_str tmp) (body @ [CHR 0x0A]) w)))"

definition save_remove :: "'o fs_api \<Rightarrow> string \<Rightarrow> 'o \<Rightarrow> 'o" where
  "save_remove F path w = fs_remove F (c_str path) w"

definition save_rename :: "'o fs_api \<Rightarrow> string \<Rightarrow> 'o \<Rightarrow> 'o" where
  "save_rename F path w = snd (fs_rename F (c_str (path @ ''.tmp'')) (c_str path) w)"

definition save :: "'j json_api \<Rightarrow> 'o fs_api \<Rightarrow> string \<Rightarrow> LifetimeStats \<Rightarrow> 'o \<Rightarrow> 'o res" where
  "save J F path s w =
     bindR (save_write J F path s w) (\<lambda>(opened, w).
       Inr (if opened then save_rename F path (save_remove F path w) else w))"

section \<open>The file system\<close>

text \<open>
  \<open>stored p w\<close> is the content of the file \<open>p\<close>, \<open>None\<close> when there is none. An operation on one file
  leaves the others alone; a rename that fails changes nothing. Whether a file can be opened for
  writing is the file system's affair.
\<close>

locale files =
  fixes F :: "'o fs_api"
    and stored :: "string \<Rightarrow> 'o \<Rightarrow> string option"
  assumes read_law: "fs_read F p w = (r, w') \<Longrightarrow> r = stored p w \<and> (\<forall>q. stored q w' = stored q w)"
    and truncate_law: "fs_truncate F p w = (ok, w') \<Longrightarrow> stored q w' = (if ok \<and> q = p then Some [] else stored q w)"
    and write_law: "stored p w \<noteq> None \<Longrightarrow> stored q (fs_write F p body w) = (if q = p then Some body else stored q w)"
    and remove_law: "stored q (fs_remove F p w) = (if q = p then None else stored q w)"
    and rename_law: "stored p w = Some body \<Longrightarrow> fs_rename F p p' w = (ok, w') \<Longrightarrow>
          stored q w' = (if ok then (if q = p' then Some body else if q = p then None else stored q w) else stored q w)"
begin

lemma load_missing: "stored (c_str path) w = None \<Longrightarrow> \<exists>w'. load J F path w = Inr (LifetimeStats_init, w')"
  using read_law [of "c_str path" w] by (cases "fs_read F (c_str path) w") (auto simp: load_def)

lemma load_present:
  "stored (c_str path) w = Some body \<Longrightarrow>
     \<exists>w'. load J F path w =
       bindR (catchR (bindR (jread J body) (stats_fields J)) (\<lambda>e. Inr LifetimeStats_init)) (\<lambda>s. Inr (s, w'))
       \<and> (\<forall>q. stored q w' = stored q w)"
  using read_law [of "c_str path" w] by (cases "fs_read F (c_str path) w") (fastforce simp: load_def)

lemma save_write_file:
  assumes "save_write J F path s w = Inr (True, w')"
  shows "\<exists>body. jdump2 J (stats_json J s) = Inr body \<and>
     (\<forall>q. stored q w' = (if q = c_str (path @ ''.tmp'') then Some (body @ [CHR 0x0A]) else stored q w))"
proof -
  let ?tmp = "c_str (path @ ''.tmp'')"
  obtain w1 body where w1: "fs_truncate F ?tmp w = (True, w1)" and body: "jdump2 J (stats_json J s) = Inr body"
    and w': "w' = fs_write F ?tmp (body @ [CHR 0x0A]) w1"
    using assms by (auto simp: save_write_def Let_def res_simps split: prod.splits bool.splits)
  have f1: "stored q w1 = (if q = ?tmp then Some [] else stored q w)" for q using truncate_law [OF w1] by simp
  then have "stored q w' = (if q = ?tmp then Some (body @ [CHR 0x0A]) else stored q w)" for q
    unfolding w' using write_law [of ?tmp w1 q] by simp
  with body show ?thesis by blast
qed

end

lemma c_str_id: "CHR 0x00 \<notin> set s \<Longrightarrow> c_str s = s"
  by (induction s) (auto simp: c_str_def)

context files
begin

lemma save_files:
  assumes "CHR 0x00 \<notin> set path" "save_write J F path s w = Inr (True, w1)"
    and "jdump2 J (stats_json J s) = Inr body"
  shows "save J F path s w = Inr (save_rename F path (save_remove F path w1))"
    and "stored path (save_remove F path w1) = None"
    and "stored (path @ ''.tmp'') (save_remove F path w1) = Some (body @ [CHR 0x0A])"
    and "fst (fs_rename F (path @ ''.tmp'') path (save_remove F path w1)) \<Longrightarrow>
      stored q (save_rename F path (save_remove F path w1)) =
      (if q = path then Some (body @ [CHR 0x0A]) else if q = path @ ''.tmp'' then None else stored q w)"
proof -
  let ?tmp = "path @ ''.tmp''" and ?w2 = "save_remove F path w1"
  have c: "c_str path = path" "c_str ?tmp = ?tmp" using assms(1) by (simp_all add: c_str_id)
  have w1: "stored q w1 = (if q = ?tmp then Some (body @ [CHR 0x0A]) else stored q w)" for q
    using save_write_file [OF assms(2)] assms(3) c by auto
  show "save J F path s w = Inr (save_rename F path ?w2)" using assms(2) by (simp add: save_def)
  show 2: "stored path ?w2 = None" and 3: "stored ?tmp ?w2 = Some (body @ [CHR 0x0A])"
    using w1 by (simp_all add: save_remove_def c remove_law)
  obtain ok w3 where r: "fs_rename F ?tmp path ?w2 = (ok, w3)" by (metis surj_pair)
  have "stored q ?w2 = (if q = path then None else stored q w1)" by (simp add: save_remove_def c remove_law)
  then show "stored q (save_rename F path ?w2) =
      (if q = path then Some (body @ [CHR 0x0A]) else if q = ?tmp then None else stored q w)"
    if "fst (fs_rename F ?tmp path ?w2)"
    using rename_law [OF 3 r, of q] w1 [of q] r that by (auto simp: save_rename_def c)
qed

end

section \<open>A plain disk\<close>

record disk =
  contents :: "(string \<times> string) list"
  read_only :: bool

definition disk_api :: "disk fs_api" where
  "disk_api = \<lparr>
     fs_read = (\<lambda>p w. (map_of (contents w) p, w)),
     fs_truncate = (\<lambda>p w. if read_only w then (False, w) else (True, w\<lparr>contents := (p, []) # contents w\<rparr>)),
     fs_write = (\<lambda>p body w. w\<lparr>contents := (p, body) # contents w\<rparr>),
     fs_remove = (\<lambda>p w. w\<lparr>contents := filter (\<lambda>(q, _). q \<noteq> p) (contents w)\<rparr>),
     fs_rename = (\<lambda>p p' w. case map_of (contents w) p of
         None \<Rightarrow> (False, w)
       | Some body \<Rightarrow> (True, w\<lparr>contents := (p', body) # filter (\<lambda>(q, _). q \<noteq> p) (contents w)\<rparr>))\<rparr>"

lemma map_of_filter_key: "map_of (filter (\<lambda>(q, _). q \<noteq> p) xs) k = (if k = p then None else map_of xs k)"
  by (induction xs) auto

interpretation disk: files disk_api "\<lambda>p w. map_of (contents w) p"
  by unfold_locales (auto simp: disk_api_def map_of_filter_key split: if_splits option.splits)

section \<open>Numbers in JSON text\<close>

text \<open>A number written into an object is read back under its key.\<close>

locale json_numbers =
  fixes J :: "'j json_api"
  assumes u64_field: "map_of kvs k = Some (ju64 J n) \<Longrightarrow> value_u64 J (jobject J kvs) k d = Inr n"
    and double_field: "map_of kvs k = Some (jdouble J x) \<Longrightarrow> value_double J (jobject J kvs) k y = Inr x"
begin

lemma stats_fields_json: "stats_fields J (stats_json J s) = Inr s"
  by (simp add: stats_fields_def stats_json_def u64_field double_field)

end

interpretation jv_numbers: json_numbers "jv_api table"
  by unfold_locales (simp_all add: jv_api_def jv_word_def)

lemma save_then_load:
  assumes "files F stored" "json_numbers J" "CHR 0x00 \<notin> set path"
    and "save_write J F path s w = Inr (True, w1)"
    and "fst (fs_rename F (path @ ''.tmp'') path (save_remove F path w1))"
    and "jdump2 J (stats_json J s) = Inr body" "jread J (body @ [CHR 0x0A]) = Inr (stats_json J s)"
  shows "\<exists>w2 w3. save J F path s w = Inr w2 \<and> load J F path w2 = Inr (s, w3) \<and>
     (\<forall>q. q \<noteq> path \<longrightarrow> stored q w2 = (if q = path @ ''.tmp'' then None else stored q w))"
proof -
  let ?w2 = "save_rename F path (save_remove F path w1)"
  note save = files.save_files [OF assms(1,3,4,6)]
  have "stored path ?w2 = Some (body @ [CHR 0x0A])" using save(4) [OF assms(5)] by simp
  then obtain w3 where "load J F path ?w2 = Inr (s, w3)"
    using files.load_present [OF assms(1), of path ?w2 "body @ [CHR 0x0A]" J] assms(3,7)
      json_numbers.stats_fields_json [OF assms(2), of s]
    by (auto simp: c_str_id)
  with save(1) save(4) [OF assms(5)] show ?thesis by auto
qed

section \<open>Properties\<close>

text \<open>
  C29: What is saved is loaded. When the temporary file can be written and renamed, \<open>save\<close> followed
  by \<open>load\<close> gives the totals back, whatever was stored under the path before, and touches no
  other file; the temporary file is gone. The text must read back as the value it was printed from.
\<close>

theorem stats_roundtrip:
  assumes "files F stored" "json_numbers J" "CHR 0x00 \<notin> set path"
    and "save_write J F path s w = Inr (True, w1)"
    and "fst (fs_rename F (path @ ''.tmp'') path (save_remove F path w1))"
    and "jdump2 J (stats_json J s) = Inr body" "jread J (body @ [CHR 0x0A]) = Inr (stats_json J s)"
  shows "\<exists>w2 w3. save J F path s w = Inr w2 \<and> load J F path w2 = Inr (s, w3) \<and>
     (\<forall>q. q \<noteq> path \<longrightarrow> stored q w2 = (if q = path @ ''.tmp'' then None else stored q w))"
  by (rule save_then_load [OF assms])

definition sample_stats :: LifetimeStats where
  "sample_stats = \<lparr>ls_accepted = 42, ls_rejected = 7, ls_hashes = 123456789, ls_uptime_s = Fin (7201 / 2), ls_sessions = 3\<rparr>"

definition stats_table :: "(string \<times> jv) list" where
  "stats_table = [(''totals'', stats_json (jv_api []) sample_stats),
     (''totals'' @ [CHR 0x0A], stats_json (jv_api []) sample_stats)]"

lemma sample_text:
  "jdump2 (jv_api stats_table) (stats_json (jv_api stats_table) sample_stats) = Inr ''totals''"
  "jread (jv_api stats_table) (''totals'' @ [CHR 0x0A]) = Inr (stats_json (jv_api stats_table) sample_stats)"
  by (simp_all add: stats_table_def jv_api_def stats_json_def)

theorem stats_roundtrip_witness:
  "\<exists>w2 w3. save (jv_api stats_table) disk_api ''s.json'' sample_stats
       \<lparr>contents = [(''s.json'', ''old''), (''other'', ''x'')], read_only = False\<rparr> = Inr w2 \<and>
     load (jv_api stats_table) disk_api ''s.json'' w2 = Inr (sample_stats, w3) \<and>
     map_of (contents w2) ''other'' = Some ''x''"
proof -
  let ?w = "\<lparr>contents = [(''s.json'', ''old''), (''other'', ''x'')], read_only = False\<rparr>"
  obtain w1 where w1: "save_write (jv_api stats_table) disk_api ''s.json'' sample_stats ?w = Inr (True, w1)"
      "fst (fs_rename disk_api (''s.json'' @ ''.tmp'') ''s.json'' (save_remove disk_api ''s.json'' w1))"
    using sample_text by (auto simp: save_write_def save_remove_def disk_api_def c_str_def Let_def)
  from stats_roundtrip [OF disk.files_axioms jv_numbers.json_numbers_axioms _ w1(1) w1(2) sample_text]
  show ?thesis by auto
qed

text \<open>
  Loading tolerates every file. \<open>load\<close> never throws; a missing file, a text that is not JSON and
  a value with a field of the wrong type all load as zeros.
\<close>

theorem load_tolerant:
  assumes "files F stored"
  shows "(\<forall>e. load J F path w \<noteq> Inl (Throw e)) \<and>
     (\<exists>w'. case stored (c_str path) w of
        None \<Rightarrow> load J F path w = Inr (LifetimeStats_init, w')
      | Some body \<Rightarrow> (\<forall>e. bindR (jread J body) (stats_fields J) = Inl (Throw e) \<longrightarrow>
            load J F path w = Inr (LifetimeStats_init, w')) \<and>
          (\<forall>s. bindR (jread J body) (stats_fields J) = Inr s \<longrightarrow> load J F path w = Inr (s, w')))"
proof (cases "stored (c_str path) w")
  case None
  then show ?thesis using files.load_missing [OF assms, of path w J] by auto
next
  case (Some body)
  then obtain w' where w': "load J F path w =
      bindR (catchR (bindR (jread J body) (stats_fields J)) (\<lambda>e. Inr LifetimeStats_init)) (\<lambda>s. Inr (s, w'))"
    using files.load_present [OF assms, of path w body J] by blast
  show ?thesis
    unfolding w' using Some by (auto simp: catchR_def split: sum.splits fault.splits)
qed

theorem load_tolerant_witness:
  "files disk_api (\<lambda>p w. map_of (contents w) p) \<and>
   (\<exists>w'. load (jv_api []) disk_api ''s.json'' \<lparr>contents = [(''s.json'', ''{ this'')], read_only = False\<rparr>
      = Inr (LifetimeStats_init, w'))"
  using load_tolerant [OF disk.files_axioms, of "jv_api []" "''s.json''"
      "\<lparr>contents = [(''s.json'', ''{ this'')], read_only = False\<rparr>"] disk.files_axioms
  by (auto simp: jv_api_simps c_str_def)

text \<open>
  Replacing the file is not atomic. The old file is removed before the new one takes its name:
  a process that ends in between leaves a path that loads as zeros, although both the old and
  the new totals had been written completely.
\<close>

theorem save_gap:
  assumes "files F stored" "CHR 0x00 \<notin> set path" "save_write J F path s w = Inr (True, w1)"
    and "jdump2 J (stats_json J s) = Inr body"
  shows "stored (path @ ''.tmp'') (save_remove F path w1) = Some (body @ [CHR 0x0A]) \<and>
     (\<exists>w'. load J F path (save_remove F path w1) = Inr (LifetimeStats_init, w'))"
  using files.save_files(2,3) [OF assms] files.load_missing [OF assms(1), of path _ J] assms(2)
  by (simp add: c_str_id)

theorem save_gap_witness:
  "\<exists>w1. save_write (jv_api stats_table) disk_api ''s.json'' sample_stats
       \<lparr>contents = [(''s.json'', ''old'')], read_only = False\<rparr> = Inr (True, w1) \<and>
     (\<exists>w'. load (jv_api stats_table) disk_api ''s.json'' (save_remove disk_api ''s.json'' w1)
       = Inr (LifetimeStats_init, w'))"
proof -
  let ?w = "\<lparr>contents = [(''s.json'', ''old'')], read_only = False\<rparr>"
  obtain w1 where w1: "save_write (jv_api stats_table) disk_api ''s.json'' sample_stats ?w = Inr (True, w1)"
    using sample_text by (auto simp: save_write_def disk_api_def c_str_def Let_def)
  from save_gap [OF disk.files_axioms _ w1 sample_text(1)] w1 show ?thesis by auto
qed

end
