(* ===== verification/Config.thy ===== *)
theory Config
  imports Stats
begin

text \<open>
  The configuration (\<open>src/config/config.cpp\<close>): reading it from a JSON file, validating it, and the
  number of threads it means. The build option \<open>MINERBY_WITH_RANDOMX\<close> is the argument
  \<open>with_randomx\<close>; \<open>hw\<close> is \<open>std::thread::hardware_concurrency()\<close>.
\<close>

section \<open>Definitions\<close>

record RandomXConfig =
  rc_mode :: string
  rc_init_threads :: i32
  rc_large_pages :: bool
  rc_secure :: bool

record Config =
  cf_protocol :: string
  cf_engine :: string
  cf_pool_host :: string
  cf_pool_port :: u16
  cf_user :: string
  cf_pass :: string
  cf_threads :: i32
  cf_metrics_port :: u16
  cf_cpu_priority :: string
  cf_stats_file :: string
  cf_randomx :: RandomXConfig
  cf_net_difficulty :: double
  cf_block_reward :: double
  cf_coin_price_usd :: double

definition Config_init :: Config where
  "Config_init = \<lparr>cf_protocol = ''bitcoin'', cf_engine = ''sha256d'', cf_pool_host = [], cf_pool_port = 0,
     cf_user = [], cf_pass = ''x'', cf_threads = 0, cf_metrics_port = 0, cf_cpu_priority = ''low'',
     cf_stats_file = [], cf_randomx = \<lparr>rc_mode = ''light'', rc_init_threads = 0, rc_large_pages = False, rc_secure = False\<rparr>,
     cf_net_difficulty = Fin 0, cf_block_reward = rnd (6 / 10), cf_coin_price_usd = Fin 0\<rparr>"

definition randomx_fast :: "Config \<Rightarrow> bool" where
  "randomx_fast c = (rc_mode (cf_randomx c) = ''fast'')"

definition cfg_low_priority :: "Config \<Rightarrow> bool" where
  "cfg_low_priority c = (cf_cpu_priority c \<noteq> ''normal'')"

definition quoted :: "string \<Rightarrow> string" where
  "quoted s = [CHR 0x27] @ s @ [CHR 0x27]"

definition validate :: "bool \<Rightarrow> Config \<Rightarrow> unit res" where
  "validate with_randomx c =
     (if cf_pool_host c = [] then throw ''config: pool_host is required''
      else if cf_pool_port c = 0 then throw ''config: pool_port is required''
      else if cf_user c = [] then throw ''config: user is required''
      else if sint (cf_threads c) < 0 then throw ''config: threads must be >= 0''
      else if cf_cpu_priority c \<noteq> ''low'' \<and> cf_cpu_priority c \<noteq> ''normal'' then
        throw (''config: cpu_priority must be '' @ quoted ''low'' @ '' or '' @ quoted ''normal'')
      else if cf_protocol c = ''bitcoin'' then
        (if cf_engine c \<noteq> ''sha256d'' then throw (''config: protocol '' @ quoted ''bitcoin'' @ '' requires engine '' @ quoted ''sha256d'')
         else Inr ())
      else if cf_protocol c = ''monero'' then
        (if cf_engine c \<noteq> ''randomx'' then throw (''config: protocol '' @ quoted ''monero'' @ '' requires engine '' @ quoted ''randomx'')
         else if \<not> with_randomx then
           throw ''config: this build was compiled without RandomX (MINERBY_WITH_RANDOMX=OFF)''
         else if rc_mode (cf_randomx c) \<noteq> ''light'' \<and> rc_mode (cf_randomx c) \<noteq> ''fast'' then
           throw (''config: randomx.mode must be '' @ quoted ''light'' @ '' or '' @ quoted ''fast'')
         else Inr ())
      else throw (''config: protocol must be '' @ quoted ''bitcoin'' @ '' or '' @ quoted ''monero''))"

definition randomx_fields :: "'j json_api \<Rightarrow> 'j \<Rightarrow> RandomXConfig \<Rightarrow> RandomXConfig res" where
  "randomx_fields J r c =
     bindR (value_string J r ''mode'' (rc_mode c)) (\<lambda>m.
     bindR (value_int J r ''init_threads'' (rc_init_threads c)) (\<lambda>n.
     bindR (value_bool J r ''large_pages'' (rc_large_pages c)) (\<lambda>l.
     bindR (value_bool J r ''secure'' (rc_secure c)) (\<lambda>s.
       Inr \<lparr>rc_mode = m, rc_init_threads = n, rc_large_pages = l, rc_secure = s\<rparr>))))"

definition config_fields :: "'j json_api \<Rightarrow> 'j \<Rightarrow> Config \<Rightarrow> Config res" where
  "config_fields J j c =
     bindR (value_string J j ''protocol'' (cf_protocol c)) (\<lambda>v. let c = c\<lparr>cf_protocol := v\<rparr> in
     bindR (value_string J j ''engine'' (cf_engine c)) (\<lambda>v. let c = c\<lparr>cf_engine := v\<rparr> in
     bindR (value_string J j ''pool_host'' (cf_pool_host c)) (\<lambda>v. let c = c\<lparr>cf_pool_host := v\<rparr> in
     bindR (value_u16 J j ''pool_port'' (cf_pool_port c)) (\<lambda>v. let c = c\<lparr>cf_pool_port := v\<rparr> in
     bindR (value_string J j ''user'' (cf_user c)) (\<lambda>v. let c = c\<lparr>cf_user := v\<rparr> in
     bindR (value_string J j ''pass'' (cf_pass c)) (\<lambda>v. let c = c\<lparr>cf_pass := v\<rparr> in
     bindR (value_int J j ''threads'' (cf_threads c)) (\<lambda>v. let c = c\<lparr>cf_threads := v\<rparr> in
     bindR (value_u16 J j ''metrics_port'' (cf_metrics_port c)) (\<lambda>v. let c = c\<lparr>cf_metrics_port := v\<rparr> in
     bindR (value_string J j ''cpu_priority'' (cf_cpu_priority c)) (\<lambda>v. let c = c\<lparr>cf_cpu_priority := v\<rparr> in
     bindR (value_string J j ''stats_file'' (cf_stats_file c)) (\<lambda>v. let c = c\<lparr>cf_stats_file := v\<rparr> in
     bindR (value_double J j ''net_difficulty'' (cf_net_difficulty c)) (\<lambda>v. let c = c\<lparr>cf_net_difficulty := v\<rparr> in
     bindR (value_double J j ''block_reward'' (cf_block_reward c)) (\<lambda>v. let c = c\<lparr>cf_block_reward := v\<rparr> in
     bindR (value_double J j ''coin_price_usd'' (cf_coin_price_usd c)) (\<lambda>v. let c = c\<lparr>cf_coin_price_usd := v\<rparr> in
     if jcontains J j ''randomx'' then
       bindR (jfield J j ''randomx'') (\<lambda>r.
         if is_object J r then bindR (randomx_fields J r (cf_randomx c)) (\<lambda>v. Inr (c\<lparr>cf_randomx := v\<rparr>))
         else Inr c)
     else Inr c)))))))))))))"

text \<open>
  The text of a parse error is the library's; the message here keeps the program's own part.
\<close>

definition from_file :: "'j json_api \<Rightarrow> 'o fs_api \<Rightarrow> bool \<Rightarrow> string \<Rightarrow> 'o \<Rightarrow> Config res \<times> 'o" where
  "from_file J F with_randomx path w =
     (case fs_read F (c_str path) w of
        (None, w) \<Rightarrow> (throw (''config: cannot open '' @ path), w)
      | (Some body, w) \<Rightarrow>
          (bindR (catchR (jread J body) (\<lambda>e. throw ''config: parse error: '')) (\<lambda>j.
           bindR (config_fields J j Config_init) (\<lambda>c.
           bindR (validate with_randomx c) (\<lambda>_. Inr c))), w))"

definition effective_threads :: "u32 \<Rightarrow> Config \<Rightarrow> u32" where
  "effective_threads hw c = (if sint (cf_threads c) > 0 then cf_threads c else if hw = 0 then 1 else hw)"

section \<open>Properties\<close>

definition config_ok :: "bool \<Rightarrow> Config \<Rightarrow> bool" where
  "config_ok with_randomx c =
     (cf_pool_host c \<noteq> [] \<and> cf_pool_port c \<noteq> 0 \<and> cf_user c \<noteq> [] \<and> 0 \<le> sint (cf_threads c) \<and>
      cf_cpu_priority c \<in> {''low'', ''normal''} \<and>
      (cf_protocol c, cf_engine c) \<in>
        {(''bitcoin'', ''sha256d'')} \<union>
        (if with_randomx \<and> rc_mode (cf_randomx c) \<in> {''light'', ''fast''} then {(''monero'', ''randomx'')} else {}))"

lemma validate_cases:
  "validate with_randomx c = Inr () \<and> config_ok with_randomx c \<or>
   (\<exists>msg. validate with_randomx c = throw msg) \<and> \<not> config_ok with_randomx c"
  by (auto simp: validate_def config_ok_def)

text \<open>
  Validation. \<open>validate\<close> accepts exactly the configurations with a pool, a port, a user, no
  negative number of threads, one of the two priorities, and one of the two pairs of protocol and
  engine, the second only in a build with RandomX and with one of its two modes; every other one
  makes it throw.
\<close>

theorem validate_spec:
  "(validate with_randomx c = Inr ()) = config_ok with_randomx c \<and>
   (\<exists>msg. validate with_randomx c = (if config_ok with_randomx c then Inr () else throw msg))"
  using validate_cases [of with_randomx c] by auto


definition minimal_config :: jv where
  "minimal_config = JObj [(''pool_host'', JStr ''pool''), (''pool_port'', JInt 3333), (''user'', JStr ''u'')]"


end
