(* ===== verification/App.thy ===== *)
theory App
  imports Worker RandomX Metrics Http Config Pool
begin

text \<open>
  The \<open>run\<close> command of \<open>src/app/main.cpp\<close>: the state its lambdas share, the callbacks it gives to the
  pool connection, and its main loop with reconnection, watchdog, statistics and shutdown.

  The pool connection is any implementation of \<open>PoolClient\<close>; what the loop relies on of it is the
  locale \<open>pool_client\<close>. The rest of the machine is a record of calls on a world \<open>'z\<close>: the clock, the
  stop flag a signal sets, sleeping, and the worker threads as far as this thread meets them (it
  starts them, waits for them, joins them, and reads their counter of hashes). Points of time
  are nanoseconds. The callbacks run inside \<open>poll\<close> and \<open>connect\<close>, on the thread of the loop.
\<close>

section \<open>Definitions\<close>

subsection \<open>The shared state\<close>

record 'z host_api =
  ho_now :: "'z \<Rightarrow> int \<times> 'z"             \<comment> \<open>\<open>steady_clock::now\<close>\<close>
  ho_stop :: "'z \<Rightarrow> bool \<times> 'z"           \<comment> \<open>\<open>g_stop.load()\<close>\<close>
  ho_sleep :: "'z \<Rightarrow> 'z"                 \<comment> \<open>100 ms\<close>
  ho_sleep_1s :: "'z \<Rightarrow> 'z"
  ho_hashes :: "'z \<Rightarrow> u64"               \<comment> \<open>\<open>hashes_\<close> of the pool, which the workers write\<close>
  ho_spawn :: "u32 \<Rightarrow> 'z \<Rightarrow> 'z"          \<comment> \<open>creating the worker threads\<close>
  ho_await_idle :: "'z \<Rightarrow> 'z"            \<comment> \<open>the waiting loop of \<open>pause\<close>\<close>
  ho_join :: "'z \<Rightarrow> 'z"                  \<comment> \<open>joining the worker threads\<close>

record 'z app =
  ap_pool :: MinerPool
  ap_metrics :: Metrics
  ap_rx :: "RandomXContext option"
  ap_seed :: bytes
  ap_last_job_at :: int
  ap_host :: 'z

definition app_now :: "'z host_api \<Rightarrow> 'z app \<Rightarrow> int \<times> 'z app" where
  "app_now H a = (let (t, z) = ho_now H (ap_host a) in (t, a\<lparr>ap_host := z\<rparr>))"

definition app_stop :: "'z host_api \<Rightarrow> 'z app \<Rightarrow> bool \<times> 'z app" where
  "app_stop H a = (let (s, z) = ho_stop H (ap_host a) in (s, a\<lparr>ap_host := z\<rparr>))"

definition on_pool :: "(MinerPool \<Rightarrow> MinerPool) \<Rightarrow> 'z app \<Rightarrow> 'z app" where
  "on_pool f a = a\<lparr>ap_pool := f (ap_pool a)\<rparr>"

definition pool_pause :: "'z host_api \<Rightarrow> 'z app \<Rightarrow> 'z app" where
  "pool_pause H a =
     (let a = on_pool pause_set a
      in if running (ap_pool a) then a\<lparr>ap_host := ho_await_idle H (ap_host a)\<rparr> else a)"

definition pool_start :: "'z host_api \<Rightarrow> 'z app \<Rightarrow> 'z app" where
  "pool_start H a =
     (if running (ap_pool a) then a
      else (on_pool (\<lambda>p. p\<lparr>running := True\<rparr>) a)\<lparr>ap_host := ho_spawn H (threads (ap_pool a)) (ap_host a)\<rparr>)"

definition pool_stop :: "'z host_api \<Rightarrow> 'z app \<Rightarrow> 'z app" where
  "pool_stop H a =
     (if \<not> running (ap_pool a) then a
      else (on_pool (\<lambda>p. p\<lparr>running := False, paused := False\<rparr>) a)\<lparr>ap_host := ho_join H (ap_host a)\<rparr>)"

subsection \<open>The callbacks\<close>

text \<open>
  A new seed: hold the workers, key the engine again, renew the hashers, let the workers go on. A
  build without RandomX compiles none of this.
\<close>

definition rekey ::
    "'z host_api \<Rightarrow> 'z randomx_api \<Rightarrow> thread_order \<Rightarrow> bool \<Rightarrow> bytes \<Rightarrow> 'z app \<Rightarrow> fault option \<times> 'z app" where
  "rekey H X order with_randomx seed a =
     (if seed \<noteq> [] \<and> seed \<noteq> ap_seed a \<and> with_randomx then
        (let was_running = running (ap_pool a);
             a = (if was_running then pool_pause H a else a)
         in case ap_rx a of
              None \<Rightarrow> (Some Undefined, a)
            | Some ctx \<Rightarrow>
                (case ensure_seed X order seed ctx (ap_host a) of
                   Inl f \<Rightarrow> (Some f, a)
                 | Inr (ctx, z) \<Rightarrow>
                     (let a = a\<lparr>ap_rx := Some ctx, ap_host := z, ap_seed := seed\<rparr>
                      in (None, if was_running then on_pool resume (on_pool rebuild_hashers a) else a))))
      else (None, a))"

text \<open>The option \<open>--share-diff\<close> replaces the target.\<close>

definition forced_job :: "double \<Rightarrow> MiningJob \<Rightarrow> MiningJob res" where
  "forced_job test_share_diff job =
     (if dlt (Fin 0) test_share_diff then
        bindR (target_from_difficulty64 test_share_diff) (\<lambda>t. Inr (job\<lparr>target := t\<rparr>))
      else Inr job)"

definition on_job_cb ::
    "'z host_api \<Rightarrow> 'z randomx_api \<Rightarrow> thread_order \<Rightarrow> bool \<Rightarrow> double
      \<Rightarrow> MiningJob \<Rightarrow> bytes \<Rightarrow> double \<Rightarrow> 'z app \<Rightarrow> fault option \<times> 'z app" where
  "on_job_cb H X order with_randomx test_share_diff job seed difficulty a =
     (case forced_job test_share_diff job of
        Inl f \<Rightarrow> (Some f, a)
      | Inr job \<Rightarrow>
          (case rekey H X order with_randomx seed a of
             (Some f, a) \<Rightarrow> (Some f, a)
           | (None, a) \<Rightarrow>
               (let a = (if \<not> running (ap_pool a) then pool_start H a else a);
                    a = on_pool (set_work job) a;
                    a = a\<lparr>ap_metrics := set_difficulty difficulty (ap_metrics a)\<rparr>;
                    (t, a) = app_now H a
                in (None, a\<lparr>ap_last_job_at := t\<rparr>))))"

definition on_submit_result_cb :: "bool \<Rightarrow> string \<Rightarrow> 'z app \<Rightarrow> fault option \<times> 'z app" where
  "on_submit_result_cb ok err a =
     (None, a\<lparr>ap_metrics := (if ok then share_accepted else share_rejected) (ap_metrics a)\<rparr>)"

definition app_callbacks ::
    "'z host_api \<Rightarrow> 'z randomx_api \<Rightarrow> thread_order \<Rightarrow> bool \<Rightarrow> double \<Rightarrow> 'z app Callbacks" where
  "app_callbacks H X order with_randomx test_share_diff =
     \<lparr>on_job = Some (on_job_cb H X order with_randomx test_share_diff),
      on_submit_result = Some on_submit_result_cb\<rparr>"

text \<open>\<open>on_share\<close>, which the workers call one at a time (\<open>submit_mtx\<close>).\<close>

definition on_share :: "('c, 'o) PoolClient \<Rightarrow> 'c \<Rightarrow> share \<Rightarrow> 'o \<Rightarrow> ('c \<times> 'o) res" where
  "on_share P c s w =
     (case s of (job, nn, digest) \<Rightarrow>
        bindR (pc_submit P c job nn digest w) (\<lambda>(ok, c, w). Inr (c, w)))"

subsection \<open>The statistics\<close>

definition session_totals :: "LifetimeStats \<Rightarrow> Metrics \<Rightarrow> u64 \<Rightarrow> double \<Rightarrow> LifetimeStats" where
  "session_totals base m hs up =
     \<lparr>ls_accepted = ls_accepted base + mt_accepted m, ls_rejected = ls_rejected base + mt_rejected m,
      ls_hashes = ls_hashes base + hs, ls_uptime_s = dadd (ls_uptime_s base) up,
      ls_sessions = ls_sessions base + 1\<rparr>"

text \<open>What the loop and the callbacks capture and do not change.\<close>

record ('c, 'z, 'j) env =
  en_json :: "'j json_api"
  en_fs :: "'z fs_api"
  en_host :: "'z host_api"
  en_ops :: "('c, 'z app) PoolClient"
  en_base :: LifetimeStats
  en_stats_path :: string
  en_run_start :: int
  en_run_for :: i32

definition persist :: "('c, 'z, 'j) env \<Rightarrow> 'z app \<Rightarrow> 'z app res" where
  "persist E a =
     (let hs = ho_hashes (en_host E) (ap_host a);
          (now, a) = app_now (en_host E) a;
          s = session_totals (en_base E) (ap_metrics a) hs (seconds (now - en_run_start E))
      in bindR (save (en_json E) (en_fs E) (en_stats_path E) s (ap_host a)) (\<lambda>z. Inr (a\<lparr>ap_host := z\<rparr>)))"

subsection \<open>The main loop\<close>

record 'c main_loop =
  ml_client :: 'c
  ml_backoff :: int
  ml_next_status :: int
  ml_next_persist :: int

definition sec :: int where
  "sec = 1000000000"

definition kJobTimeout :: int where
  "kJobTimeout = 150 * sec"

text \<open>The wait after a failed connection, at most \<open>n\<close> sleeps, cut short by the stop flag.\<close>

fun backoff_wait :: "'z host_api \<Rightarrow> nat \<Rightarrow> 'z app \<Rightarrow> 'z app" where
  "backoff_wait H 0 a = a"
| "backoff_wait H (Suc n) a =
     (let (stop, a) = app_stop H a
      in if stop then a else backoff_wait H n (a\<lparr>ap_host := ho_sleep H (ap_host a)\<rparr>))"

text \<open>Leaving a connection: \<open>disconnect\<close> and \<open>clear_work\<close>.\<close>

definition drop_pool :: "('c, 'z, 'j) env \<Rightarrow> 'c main_loop \<Rightarrow> 'z app \<Rightarrow> 'c main_loop \<times> 'z app" where
  "drop_pool E l a =
     (let (c, a) = pc_disconnect (en_ops E) (ml_client l) a in (l\<lparr>ml_client := c\<rparr>, on_pool clear_work a))"

definition persist_due :: "('c, 'z, 'j) env \<Rightarrow> 'c main_loop \<Rightarrow> 'z app \<Rightarrow> ('c main_loop \<times> 'z app) res" where
  "persist_due E l a =
     (let (now, a) = app_now (en_host E) a
      in if ml_next_persist l \<le> now then
           bindR (persist E a) (\<lambda>a. Inr (l\<lparr>ml_next_persist := ml_next_persist l + 30 * sec\<rparr>, a))
         else Inr (l, a))"

definition status_due :: "('c, 'z, 'j) env \<Rightarrow> 'c main_loop \<Rightarrow> 'z app \<Rightarrow> 'c main_loop \<times> 'z app" where
  "status_due E l a =
     (let (now, a) = app_now (en_host E) a
      in if ml_next_status l \<le> now then
           (let m = set_total_hashes (ho_hashes (en_host E) (ap_host a)) (ap_metrics a);
                (t, a) = app_now (en_host E) a;
                (snap, m) = snapshot t m
            in (l\<lparr>ml_next_status := ml_next_status l + 5 * sec\<rparr>, a\<lparr>ap_metrics := m\<rparr>))
         else (l, a))"

text \<open>One pass of the loop from \<open>poll\<close> on.\<close>

definition poll_pass :: "('c, 'z, 'j) env \<Rightarrow> 'c main_loop \<Rightarrow> 'z app \<Rightarrow> ('c main_loop \<times> 'z app) res" where
  "poll_pass E l a =
     bindR (pc_poll (en_ops E) (ml_client l) 1000 a) (\<lambda>(ok, c, a).
       let l = l\<lparr>ml_client := c\<rparr> in
       if \<not> ok then Inr (drop_pool E l a)
       else
         let (now, a) = app_now (en_host E) a in
         if kJobTimeout < now - ap_last_job_at a then Inr (drop_pool E l a)
         else bindR (persist_due E l a) (\<lambda>(l, a). Inr (status_due E l a)))"

text \<open>The body of the loop; the flag is false when it leaves the loop.\<close>

definition run_pass :: "('c, 'z, 'j) env \<Rightarrow> 'c main_loop \<Rightarrow> 'z app \<Rightarrow> (bool \<times> 'c main_loop \<times> 'z app) res" where
  "run_pass E l a =
     (let H = en_host E;
          (now, a) = (if 0 < sint (en_run_for E) then app_now H a else (0, a))
      in if 0 < sint (en_run_for E) \<and> en_run_start E + sint (en_run_for E) * sec \<le> now then Inr (False, l, a)
         else if \<not> pc_connected (en_ops E) (ml_client l) then
           bindR (pc_connect (en_ops E) (ml_client l) a) (\<lambda>(ok, c, a).
             let l = l\<lparr>ml_client := c\<rparr> in
             if \<not> ok then
               (let a = backoff_wait H (nat (ml_backoff l * 10)) a
                in Inr (True, l\<lparr>ml_backoff := min (ml_backoff l * 2) 30\<rparr>, a))
             else
               (let (t, a) = app_now H a
                in bindR (poll_pass E (l\<lparr>ml_backoff := 1\<rparr>) (a\<lparr>ap_last_job_at := t\<rparr>)) (\<lambda>(l, a). Inr (True, l, a))))
         else bindR (poll_pass E l a) (\<lambda>(l, a). Inr (True, l, a)))"

text \<open>The loop, for at most \<open>n\<close> passes; the flag tells whether it has ended.\<close>

fun run_loop :: "nat \<Rightarrow> ('c, 'z, 'j) env \<Rightarrow> 'c main_loop \<Rightarrow> 'z app \<Rightarrow> (bool \<times> 'c main_loop \<times> 'z app) res" where
  "run_loop 0 E l a = Inr (False, l, a)"
| "run_loop (Suc n) E l a =
     (let (stop, a) = app_stop (en_host E) a
      in if stop then Inr (True, l, a)
         else bindR (run_pass E l a) (\<lambda>(go, l, a). if go then run_loop n E l a else Inr (True, l, a)))"

definition shutdown :: "('c, 'z, 'j) env \<Rightarrow> 'z listen_api \<Rightarrow> HttpServer option \<Rightarrow> 'c main_loop \<Rightarrow> 'z app
    \<Rightarrow> (HttpServer option \<times> 'c main_loop \<times> 'z app) res" where
  "shutdown E L http l a =
     (let a = pool_stop (en_host E) a;
          (http, a) = (case http of
             None \<Rightarrow> (None, a)
           | Some h \<Rightarrow> (let (h, z) = http_stop L h (ap_host a) in (Some h, a\<lparr>ap_host := z\<rparr>)));
          (c, a) = pc_disconnect (en_ops E) (ml_client l) a
      in bindR (persist E a) (\<lambda>a. Inr (http, l\<lparr>ml_client := c\<rparr>, a)))"

subsection \<open>The command\<close>

definition rx_options :: "Config \<Rightarrow> Options" where
  "rx_options cfg = \<lparr>opt_fast_mode = randomx_fast cfg, opt_init_threads = rc_init_threads (cf_randomx cfg),
     opt_large_pages = rc_large_pages (cf_randomx cfg), opt_secure_jit = rc_secure (cf_randomx cfg)\<rparr>"

text \<open>The engine of the protocol: \<open>Inr None\<close> is the SHA-256d kernel, which has no state.\<close>

definition make_engine ::
    "'z randomx_api \<Rightarrow> bool \<Rightarrow> u32 \<Rightarrow> Config \<Rightarrow> 'z \<Rightarrow> (RandomXContext option \<times> 'z) option res" where
  "make_engine X with_randomx hw cfg z =
     (if cf_protocol cfg = ''monero'' then
        (if with_randomx then
           bindR (RandomXContext_new X hw (rx_options cfg) z) (\<lambda>(ctx, z). Inr (Some (Some ctx, z)))
         else Inr None)
      else Inr (Some (None, z)))"

definition start_http :: "'z listen_api \<Rightarrow> Config \<Rightarrow> 'z \<Rightarrow> HttpServer option \<times> 'z" where
  "start_http L cfg z =
     (if cf_metrics_port cfg \<noteq> 0 then
        (case http_start L (HttpServer_init (cf_metrics_port cfg)) z of
           (ok, h, z) \<Rightarrow> (if ok then Some h else None, z))
      else (None, z))"

text \<open>
  What \<open>cmd_run\<close> sets up before the loop: the state, the environment of the loop, and the loop's
  variables. \<open>mk\<close> makes the client of the protocol with its callbacks set.
\<close>

definition set_up ::
    "'j json_api \<Rightarrow> 'z fs_api \<Rightarrow> 'z host_api \<Rightarrow> 'z listen_api \<Rightarrow> 'z randomx_api \<Rightarrow> ('c, 'z app) PoolClient \<Rightarrow> 'c
      \<Rightarrow> bool \<Rightarrow> u32 \<Rightarrow> Config \<Rightarrow> string \<Rightarrow> i32 \<Rightarrow> 'z
      \<Rightarrow> (('c, 'z, 'j) env \<times> HttpServer option \<times> 'c main_loop \<times> 'z app) option res" where
  "set_up J F H L X P c with_randomx hw cfg stats_path run_for z =
     bindR (make_engine X with_randomx hw cfg z) (\<lambda>engine.
       case engine of
         None \<Rightarrow> Inr None
       | Some (rxc, z) \<Rightarrow>
           let p = MinerPool_init (effective_threads hw cfg) (cfg_low_priority cfg);
               (t0, z) = ho_now H z; (t1, z) = ho_now H z
           in bindR (load J F stats_path z) (\<lambda>(base, z).
             let (run_start, z) = ho_now H z; (job_at, z) = ho_now H z;
                 (http, z) = start_http L cfg z;
                 (t2, z) = ho_now H z; (t3, z) = ho_now H z
             in Inr (Some (
               \<lparr>en_json = J, en_fs = F, en_host = H, en_ops = P, en_base = base, en_stats_path = stats_path,
                en_run_start = run_start, en_run_for = run_for\<rparr>,
               http,
               \<lparr>ml_client = c, ml_backoff = 1, ml_next_status = t2 + 5 * sec, ml_next_persist = t3 + 30 * sec\<rparr>,
               \<lparr>ap_pool = p, ap_metrics = Metrics_init t0 t1, ap_rx = rxc, ap_seed = [], ap_last_job_at = job_at,
                ap_host = z\<rparr>))))"

text \<open>
  \<open>cmd_run\<close> with at most \<open>n\<close> passes of the loop: the exit code and the final state, \<open>None\<close> when the
  loop has not ended by then.
\<close>

definition cmd_run ::
    "nat \<Rightarrow> 'j json_api \<Rightarrow> 'z fs_api \<Rightarrow> 'z host_api \<Rightarrow> 'z listen_api \<Rightarrow> 'z randomx_api \<Rightarrow> thread_order
      \<Rightarrow> ('c, 'z app) PoolClient \<Rightarrow> ('z app Callbacks \<Rightarrow> 'c)
      \<Rightarrow> bool \<Rightarrow> u32 \<Rightarrow> Config \<Rightarrow> double \<Rightarrow> string \<Rightarrow> i32 \<Rightarrow> 'z
      \<Rightarrow> (int \<times> (HttpServer option \<times> 'c main_loop \<times> 'z app) option) option res" where
  "cmd_run n J F H L X order P mk with_randomx hw cfg test_share_diff stats_path run_for z =
     bindR (set_up J F H L X P (mk (app_callbacks H X order with_randomx test_share_diff)) with_randomx hw cfg
              stats_path run_for z) (\<lambda>r.
       case r of
         None \<Rightarrow> Inr (Some (1, None))
       | Some (E, http, l, a) \<Rightarrow>
           bindR (run_loop n E l a) (\<lambda>(ended, l, a).
             if \<not> ended then Inr None
             else bindR (shutdown E L http l a) (\<lambda>final. Inr (Some (0, Some final)))))"

subsection \<open>The bench command\<close>

definition bench_threads :: "u32 \<Rightarrow> u32 \<Rightarrow> u32" where
  "bench_threads hw n = (if n = 0 then (if hw = 0 then 1 else hw) else n)"

text \<open>The engine and the job of a bench run; \<open>Inr None\<close> is an engine the build does not have.\<close>

definition bench_engine ::
    "'z randomx_api \<Rightarrow> thread_order \<Rightarrow> bool \<Rightarrow> u32 \<Rightarrow> string \<Rightarrow> bool \<Rightarrow> 'z
      \<Rightarrow> (RandomXContext option \<times> MiningJob \<times> 'z) option res" where
  "bench_engine X order with_randomx hw engine use_fast z =
     (let job = MiningJob_init\<lparr>target := replicate 32 0\<rparr> in
      if engine = ''sha256d'' then Inr (Some (None, job\<lparr>blob := replicate 80 0x11, nonce_offset := 76\<rparr>, z))
      else if engine = ''randomx'' \<and> with_randomx then
        bindR (RandomXContext_new X hw (Options_init\<lparr>opt_fast_mode := use_fast\<rparr>) z) (\<lambda>(ctx, z).
        bindR (ensure_seed X order (replicate 32 0x2a) ctx z) (\<lambda>(ctx, z).
          Inr (Some (Some ctx, job\<lparr>blob := replicate 76 0x11, nonce_offset := 39\<rparr>, z))))
      else Inr None)"

text \<open>The loop of \<open>n\<close> seconds, cut short by the stop flag.\<close>

fun bench_loop :: "'z host_api \<Rightarrow> nat \<Rightarrow> 'z app \<Rightarrow> 'z app" where
  "bench_loop H 0 a = a"
| "bench_loop H (Suc n) a =
     (let (stop, a) = app_stop H a in
      if stop then a
      else
        let a = a\<lparr>ap_host := ho_sleep_1s H (ap_host a)\<rparr>;
            m = set_total_hashes (ho_hashes H (ap_host a)) (ap_metrics a);
            (t, a) = app_now H a;
            (snap, m) = snapshot t m
        in bench_loop H n (a\<lparr>ap_metrics := m\<rparr>))"

definition cmd_bench ::
    "'z host_api \<Rightarrow> 'z randomx_api \<Rightarrow> thread_order \<Rightarrow> bool \<Rightarrow> u32 \<Rightarrow> u32 \<Rightarrow> i32 \<Rightarrow> string \<Rightarrow> bool \<Rightarrow> 'z
      \<Rightarrow> (int \<times> 'z app option) res" where
  "cmd_bench H X order with_randomx hw n duration engine use_fast z =
     bindR (bench_engine X order with_randomx hw engine use_fast z) (\<lambda>r.
       case r of
         None \<Rightarrow> Inr (2, None)
       | Some (rxc, job, z) \<Rightarrow>
           let a = \<lparr>ap_pool = set_work job (MinerPool_init (bench_threads hw n) False), ap_metrics = Metrics_init 0 0,
                    ap_rx = rxc, ap_seed = [], ap_last_job_at = 0, ap_host = z\<rparr>;
               a = pool_start H a;
               (t0, a) = app_now H a; (t1, a) = app_now H a;
               a = a\<lparr>ap_metrics := Metrics_init t0 t1\<rparr>;
               (start_time, a) = app_now H a;
               a = bench_loop H (nat (sint duration)) a;
               a = pool_stop H a
           in Inr (0, Some a))"

section \<open>What the parts of a pass leave alone\<close>

lemma app_now_keeps:
  "app_now H a = (t, a') \<Longrightarrow> ap_pool a' = ap_pool a \<and> ap_last_job_at a' = ap_last_job_at a
     \<and> ap_seed a' = ap_seed a \<and> ap_rx a' = ap_rx a \<and> ap_metrics a' = ap_metrics a"
  by (auto simp: app_now_def split: prod.splits)

lemma app_stop_keeps: "app_stop H a = (s, a') \<Longrightarrow> ap_pool a' = ap_pool a \<and> ap_last_job_at a' = ap_last_job_at a"
  by (auto simp: app_stop_def split: prod.splits)

definition same_work :: "'z app \<Rightarrow> 'z app \<Rightarrow> bool" where
  "same_work a a' = (ap_pool a' = ap_pool a \<and> ap_last_job_at a' = ap_last_job_at a)"

lemma same_work_refl [simp]: "same_work a a"
  by (simp add: same_work_def)

lemma same_work_trans: "same_work a b \<Longrightarrow> same_work b c \<Longrightarrow> same_work a c"
  by (simp add: same_work_def)

lemma app_now_same: "app_now H a = (t, a') \<Longrightarrow> same_work a a'"
  by (drule app_now_keeps) (simp add: same_work_def)

lemma persist_same: "ensures (persist E a) (same_work a)"
  by (auto simp: persist_def ensures_def bindR_eq_Inr Let_def same_work_def dest!: app_now_keeps split: prod.splits)

lemma persist_due_same:
  "ensures (persist_due E l a) (\<lambda>(l', a'). same_work a a' \<and> ml_client l' = ml_client l \<and> ml_backoff l' = ml_backoff l)"
proof (cases "app_now (en_host E) a")
  case (Pair now a1)
  then show ?thesis
    using app_now_same [OF Pair] persist_same [of E a1]
    by (auto simp: persist_due_def ensures_def bindR_eq_Inr intro: same_work_trans)
qed

lemma status_due_same:
  "status_due E l a = (l', a') \<Longrightarrow> same_work a a' \<and> ml_client l' = ml_client l \<and> ml_backoff l' = ml_backoff l"
  by (auto simp: status_due_def Let_def same_work_def dest!: app_now_keeps split: prod.splits if_splits)

lemma drop_pool_drops:
  assumes "pool_client (en_ops E)" "drop_pool E l a = (l', a')"
  shows "\<not> pc_connected (en_ops E) (ml_client l') \<and> work (ap_pool a') = None \<and> ml_backoff l' = ml_backoff l"
  using assms(2) pool_client.disconnect_closed [OF assms(1)]
  by (auto simp: drop_pool_def on_pool_def clear_work_def clear_work_store_def split: prod.splits)

lemma drop_pool_backoff: "drop_pool E l a = (l', a') \<Longrightarrow> ml_backoff l' = ml_backoff l"
  by (auto simp: drop_pool_def split: prod.splits)

text \<open>What becomes of a pass, by the outcome of its poll and of the watchdog.\<close>

lemma poll_pass_cases:
  assumes "poll_pass E l a = Inr (l', a')"
  obtains c a1 where "pc_poll (en_ops E) (ml_client l) 1000 a = Inr (False, c, a1)"
      "drop_pool E (l\<lparr>ml_client := c\<rparr>) a1 = (l', a')"
    | c a1 now a2 where "pc_poll (en_ops E) (ml_client l) 1000 a = Inr (True, c, a1)"
      "app_now (en_host E) a1 = (now, a2)" "kJobTimeout < now - ap_last_job_at a1"
      "drop_pool E (l\<lparr>ml_client := c\<rparr>) a2 = (l', a')"
    | c a1 now a2 where "pc_poll (en_ops E) (ml_client l) 1000 a = Inr (True, c, a1)"
      "app_now (en_host E) a1 = (now, a2)" "now - ap_last_job_at a1 \<le> kJobTimeout"
      "same_work a1 a'" "ml_client l' = c" "ml_backoff l' = ml_backoff l"
proof -
  obtain ok c a1 where p: "pc_poll (en_ops E) (ml_client l) 1000 a = Inr (ok, c, a1)"
    using assms by (auto simp: poll_pass_def bindR_eq_Inr)
  obtain now a2 where n: "app_now (en_host E) a1 = (now, a2)" by (metis surj_pair)
  have same: "same_work a1 a2" using app_now_same [OF n] .
  show thesis
  proof (cases "ok \<and> now - ap_last_job_at a1 \<le> kJobTimeout")
    case False
    then show thesis
      using assms p n same that(1) [of c a1] that(2) [of c a1 now a2]
      by (cases ok) (auto simp: poll_pass_def same_work_def Let_def)
  next
    case True
    then obtain l3 a3 where "persist_due E (l\<lparr>ml_client := c\<rparr>) a2 = Inr (l3, a3)" "status_due E l3 a3 = (l', a')"
      using assms p n same by (auto simp: poll_pass_def same_work_def Let_def bindR_eq_Inr)
    then have "same_work a1 a'" "ml_client l' = c" "ml_backoff l' = ml_backoff l"
      using ensuresD [OF persist_due_same, of E "l\<lparr>ml_client := c\<rparr>" a2 "(l3, a3)"] status_due_same [of E l3 a3 l' a'] same
      by (auto intro: same_work_trans)
    then show thesis using that(3) [of c a1 now a2] p n True by simp
  qed
qed

lemma poll_pass_backoff: "poll_pass E l a = Inr (l', a') \<Longrightarrow> ml_backoff l' = ml_backoff l"
  by (erule poll_pass_cases) (auto dest!: drop_pool_backoff)

lemma run_pass_backoff:
  assumes "1 \<le> ml_backoff l" "ml_backoff l \<le> 30"
  shows "ensures (run_pass E l a) (\<lambda>(go, l', a'). 1 \<le> ml_backoff l' \<and> ml_backoff l' \<le> 30)"
  unfolding run_pass_def Let_def
  by (intro ensures_rules) (use assms in \<open>auto dest!: poll_pass_backoff\<close>)

lemma run_loop_backoff:
  "1 \<le> ml_backoff l \<Longrightarrow> ml_backoff l \<le> 30 \<Longrightarrow>
     ensures (run_loop n E l a) (\<lambda>(ended, l', a'). 1 \<le> ml_backoff l' \<and> ml_backoff l' \<le> 30)"
proof (induction n arbitrary: l a)
  case 0
  then show ?case by (simp add: ensures_def)
next
  case (Suc n)
  have go: "1 \<le> ml_backoff l' \<and> ml_backoff l' \<le> 30" if "run_pass E l b = Inr (go, l', a')" for b go l' a'
    using ensuresD [OF run_pass_backoff [OF Suc.prems] that] by simp
  show ?case
    unfolding run_loop.simps Let_def
    by (intro ensures_rules) (auto simp: Suc.prems dest!: go intro!: Suc.IH)
qed

end
