(* ===== verification/Cli.thy ===== *)
theory Cli
  imports Config Format
begin

text \<open>
  The command line of \<open>src/app/main.cpp\<close>: the \<open>estimate\<close> command, the overrides of the \<open>run\<close> command
  and the file its totals go to. The options arrive parsed, as the option library leaves them in
  the variables of \<open>main\<close>. Output is the text printed; the log is left out.
\<close>

section \<open>Definitions\<close>

subsection \<open>Numbers for people\<close>

text \<open>\<open>snprintf\<close> cuts the text to the 63 characters the buffer has room for.\<close>

definition human_hashrate :: "double \<Rightarrow> string" where
  "human_hashrate hs =
     (let (v, unit) =
        (if dle (Fin 1000000000) hs then (ddiv hs (Fin 1000000000), ''GH/s'')
         else if dle (Fin 1000000) hs then (ddiv hs (Fin 1000000), ''MH/s'')
         else if dle (Fin 1000) hs then (ddiv hs (Fin 1000), ''kH/s'')
         else (hs, ''H/s''))
      in take 63 (fmt_fixed 2 v @ '' '' @ unit))"

definition xmr_per_day :: "double \<Rightarrow> double \<Rightarrow> double \<Rightarrow> double" where
  "xmr_per_day hashrate net_diff block_reward =
     (let net_hashrate = ddiv net_diff (Fin 120);
          share = ddiv hashrate net_hashrate;
          blocks_per_day = ddiv (Fin 86400) (Fin 120)
      in dmul (dmul share blocks_per_day) block_reward)"

definition cmd_estimate :: "double \<Rightarrow> double \<Rightarrow> double \<Rightarrow> double \<Rightarrow> int \<times> string" where
  "cmd_estimate hashrate net_diff block_reward price =
     (if dle hashrate (Fin 0) \<or> dle net_diff (Fin 0) then (2, [])
      else
        let nl = [CHR 0x0A];
            net_hashrate = ddiv net_diff (Fin 120);
            share = ddiv hashrate net_hashrate;
            xmr_day = xmr_per_day hashrate net_diff block_reward
        in (0,
          nl @ ''  your hashrate     : '' @ human_hashrate hashrate @ nl @
          ''  network hashrate  : '' @ human_hashrate net_hashrate @ ''  (difficulty '' @ fmt_fixed 0 net_diff @ '')'' @ nl @
          ''  your share        : '' @ fmt_fixed 6 (dmul share (Fin 100)) @ '' % of the network'' @ nl @
          ''  est. XMR / day    : '' @ fmt_fixed 8 xmr_day @ ''  (at '' @ fmt_fixed 2 block_reward @ '' XMR/block)'' @ nl @
          ''  est. XMR / month  : '' @ fmt_fixed 6 (dmul xmr_day (Fin 30)) @ nl @
          (if dlt (Fin 0) price then
             ''  est. USD / day    : '' @ fmt_fixed 4 (dmul xmr_day price) @ ''  (at '' @ fmt_fixed 2 price @ '' USD/XMR)'' @ nl @
             ''  est. USD / month  : '' @ fmt_fixed 2 (dmul (dmul xmr_day (Fin 30)) price) @ nl
           else []) @
          nl @ ''  Rough figures: ignores pool fees, variance, stale shares and difficulty drift.'' @ nl @ nl))"

subsection \<open>The overrides of the run command\<close>

text \<open>\<open>std::string::rfind(c)\<close> and \<open>std::stoi\<close> (leading blanks, a sign, digits; the rest is ignored).\<close>

fun rfind :: "char \<Rightarrow> string \<Rightarrow> nat option" where
  "rfind c [] = None"
| "rfind c (x # xs) =
     (case rfind c xs of Some i \<Rightarrow> Some (Suc i) | None \<Rightarrow> if x = c then Some 0 else None)"

definition is_space :: "char \<Rightarrow> bool" where
  "is_space c = (c \<in> {CHR 0x20, CHR 0x09, CHR 0x0A, CHR 0x0B, CHR 0x0C, CHR 0x0D})"

definition is_digit :: "char \<Rightarrow> bool" where
  "is_digit c = (48 \<le> (of_char c :: nat) \<and> (of_char c :: nat) \<le> 57)"

definition stoi :: "string \<Rightarrow> i32 res" where
  "stoi s =
     (let s = dropWhile is_space s;
          (neg, s) = (case s of [] \<Rightarrow> (False, [])
            | c # cs \<Rightarrow> if c = CHR ''-'' then (True, cs) else if c = CHR ''+'' then (False, cs) else (False, s));
          digits = takeWhile is_digit s;
          n = (if neg then - int (dec_value digits) else int (dec_value digits))
      in if digits = [] then Inl (Throw Std_error)
         else if n < - (2 ^ 31) \<or> 2 ^ 31 \<le> n then Inl (Throw Std_error)
         else Inr (word_of_int n))"

record RunArgs =
  ra_config :: string
  ra_pool :: string
  ra_user :: string
  ra_threads :: i32
  ra_metrics :: i32
  ra_share_diff :: double
  ra_for :: i32

definition override_pool :: "string \<Rightarrow> Config \<Rightarrow> Config res" where
  "override_pool ov_pool c =
     (if ov_pool = [] then Inr c
      else case rfind (CHR '':'') ov_pool of
        None \<Rightarrow> throw ''--pool needs host:port''
      | Some colon \<Rightarrow>
          bindR (stoi (drop (colon + 1) ov_pool)) (\<lambda>port.
            Inr (c\<lparr>cf_pool_host := take colon ov_pool, cf_pool_port := ucast port\<rparr>)))"

definition apply_overrides :: "RunArgs \<Rightarrow> Config \<Rightarrow> Config res" where
  "apply_overrides a c =
     bindR (override_pool (ra_pool a) c) (\<lambda>c.
       let c = (if ra_user a \<noteq> [] then c\<lparr>cf_user := ra_user a\<rparr> else c);
           c = (if 0 \<le> sint (ra_threads a) then c\<lparr>cf_threads := ra_threads a\<rparr> else c);
           c = (if 0 \<le> sint (ra_metrics a) then c\<lparr>cf_metrics_port := ucast (ra_metrics a)\<rparr> else c)
       in Inr c)"

text \<open>The position of the last slash or backslash, and the default file of the totals.\<close>

fun find_last_slash :: "string \<Rightarrow> nat option" where
  "find_last_slash [] = None"
| "find_last_slash (x # xs) =
     (case find_last_slash xs of
        Some i \<Rightarrow> Some (Suc i) | None \<Rightarrow> if x = CHR ''/'' \<or> x = CHR 0x5C then Some 0 else None)"

definition default_stats_path :: "string \<Rightarrow> string" where
  "default_stats_path config_path =
     (let dir = (case find_last_slash config_path of None \<Rightarrow> [] | Some slash \<Rightarrow> take (slash + 1) config_path)
      in dir @ ''minerby-stats.json'')"

text \<open>What \<open>main\<close> does before it starts to mine: the configuration and the file of the totals.\<close>

definition prepare_run ::
    "'j json_api \<Rightarrow> 'o fs_api \<Rightarrow> bool \<Rightarrow> RunArgs \<Rightarrow> 'o \<Rightarrow> (Config \<times> string) res \<times> 'o" where
  "prepare_run J F with_randomx a w =
     (let (r, w) = from_file J F with_randomx (ra_config a) w in
      (bindR r (\<lambda>c.
       bindR (apply_overrides a c) (\<lambda>c.
       bindR (validate with_randomx c) (\<lambda>_.
         Inr (c, if cf_stats_file c = [] then default_stats_path (ra_config a) else cf_stats_file c)))), w))"

section \<open>The estimate\<close>

lemma rnd_le_inf: "dle (rnd q) (Inf False)"
  by (simp add: rnd_def Let_def)

lemma dmul_mono:
  assumes "dle (Fin 0) x" "dle x y" "0 < c"
  shows "dle (dmul x (Fin c)) (dmul y (Fin c))" "dle (Fin 0) (dmul x (Fin c))"
proof -
  show "dle (dmul x (Fin c)) (dmul y (Fin c))"
    using assms by (cases x; cases y) (auto intro!: rnd_mono_nonneg mult_right_mono rnd_le_inf split: if_splits)
  show "dle (Fin 0) (dmul x (Fin c))"
    using assms rnd_mono_nonneg [of 0 "_ * c"] by (cases x) auto
qed

lemma ddiv_mono:
  assumes "0 < h1" "h1 \<le> h2" "0 \<le> n2" "n2 \<le> n1"
  shows "dle (ddiv (Fin h1) (Fin n1)) (ddiv (Fin h2) (Fin n2))" "dle (Fin 0) (ddiv (Fin h1) (Fin n1))"
proof -
  show "dle (ddiv (Fin h1) (Fin n1)) (ddiv (Fin h2) (Fin n2))"
    using assms by (auto intro!: rnd_mono_nonneg frac_le rnd_le_inf)
  show "dle (Fin 0) (ddiv (Fin h1) (Fin n1))"
    using assms rnd_mono_nonneg [of 0 "h1 / n1"] by auto
qed

lemma xmr_per_day_mono:
  assumes "0 < h1" "h1 \<le> h2" "0 < d2" "d2 \<le> d1" "rnd d1 = Fin d1" "0 < r"
  shows "dle (xmr_per_day (Fin h1) (Fin d1) (Fin r)) (xmr_per_day (Fin h2) (Fin d2) (Fin r))"
proof -
  have "dle (rnd (d1 / 120)) (rnd d1)" using assms by (intro rnd_mono_nonneg) (simp_all add: field_simps)
  moreover have "dle (rnd (d2 / 120)) (rnd (d1 / 120))" "dle (rnd 0) (rnd (d2 / 120))"
    by (rule rnd_mono_nonneg; use assms in simp)+
  ultimately obtain n1 n2 where n: "rnd (d1 / 120) = Fin n1" "rnd (d2 / 120) = Fin n2" "n2 \<le> n1" "0 \<le> n2"
    using assms(5) by (cases "rnd (d1 / 120)"; cases "rnd (d2 / 120)") auto
  have day: "ddiv (Fin 86400) (Fin 120) = Fin 720" using rnd_int_exact [of 720] by simp
  show ?thesis
    using ddiv_mono [OF assms(1,2) n(4,3)] assms(3-6) dmul_mono n(1,2)
    unfolding xmr_per_day_def Let_def day by (simp del: dmul.simps)
qed

section \<open>The overrides\<close>

lemma rfind_last: "c \<notin> set t \<Longrightarrow> rfind c (s @ c # t) = Some (length s)"
proof (induction s)
  case Nil
  then have "rfind c t = None" by (induction t) auto
  then show ?case by simp
next
  case (Cons x s)
  then show ?case by simp
qed

lemma to_string_is_digit: "c \<in> set (to_string n) \<Longrightarrow> is_digit c"
proof (induction n rule: to_string.induct)
  case (1 n)
  have "is_digit (char_of (48 + d))" if "d < 10" for d :: nat
    using digit_char [OF that] that by (simp add: is_digit_def)
  with 1 show ?case by (cases "n < 10") (auto simp: to_string.simps [of n])
qed

lemma non_digits:
  "\<not> is_digit (CHR ''-'')" "\<not> is_digit (CHR ''+'')" "\<not> is_digit (CHR '':'')" "is_space c \<Longrightarrow> \<not> is_digit c"
  by (auto simp: is_digit_def is_space_def)

lemma stoi_digits:
  assumes "s \<noteq> []" "\<And>c. c \<in> set s \<Longrightarrow> is_digit c" "dec_value s < 2 ^ 31"
  shows "stoi s = Inr (of_nat (dec_value s))"
proof -
  have "takeWhile is_digit s = s" using assms(2) by (simp add: takeWhile_eq_all_conv)
  moreover have "is_digit (hd s)" using assms(1,2) by simp
  then have "\<not> is_space (hd s)" "hd s \<noteq> CHR ''-''" "hd s \<noteq> CHR ''+''"
    using non_digits by metis+
  moreover have "int (dec_value s) < 2 ^ 31" using assms(3) by simp
  ultimately show ?thesis using assms(1) by (cases s) (auto simp: stoi_def Let_def)
qed

lemma stoi_to_string: "n < 2 ^ 31 \<Longrightarrow> stoi (to_string n) = Inr (of_nat n)"
  using stoi_digits [of "to_string n"] to_string_is_digit by simp

lemma find_last_slash_last:
  assumes "CHR ''/'' \<notin> set t" "CHR 0x5C \<notin> set t"
  shows "find_last_slash (s @ CHR ''/'' # t) = Some (length s)" "find_last_slash t = None"
proof -
  show none: "find_last_slash t = None" using assms by (induction t) auto
  then show "find_last_slash (s @ CHR ''/'' # t) = Some (length s)" by (induction s) auto
qed

section \<open>Properties\<close>

text \<open>
  The estimate is monotone. With a larger hash rate, or against a smaller network difficulty, the
  earnings shown are never smaller, rounding, underflow and overflow of the doubles included.
\<close>

theorem estimate_monotone:
  assumes "0 < h1" "h1 \<le> h2" "0 < d2" "d2 \<le> d1" "rnd d1 = Fin d1" "0 < r"
  shows "dle (xmr_per_day (Fin h1) (Fin d1) (Fin r)) (xmr_per_day (Fin h2) (Fin d2) (Fin r)) \<and>
    fst (cmd_estimate (Fin h1) (Fin d1) (Fin r) price) = 0"
  using xmr_per_day_mono [OF assms] assms by (simp add: cmd_estimate_def Let_def)

theorem estimate_monotone_witness:
  "dle (xmr_per_day (Fin 1000) (Fin 4096) (Fin 1)) (xmr_per_day (Fin 2000) (Fin 1024) (Fin 1)) \<and>
   fst (cmd_estimate (Fin 1000) (Fin 4096) (Fin 1) NaN) = 0"
proof -
  have "rnd 4096 = Fin 4096" using rnd_int_exact [of 4096] by simp
  then show ?thesis using estimate_monotone [of 1000 2000 1024 4096 1 NaN] by simp
qed

text \<open>
  The pool override. A host, a colon and a decimal number below 2 to the 31 set the host to what
  stands before the last colon and the port to the number modulo 65536, so a port is read back
  exactly and a number that is no port is wrapped without an error; without a colon the override
  throws. The other settings stay.
\<close>

theorem pool_override:
  "override_pool (host @ '':'' @ to_string (unat (p :: u16))) c = Inr (c\<lparr>cf_pool_host := host, cf_pool_port := p\<rparr>) \<and>
   override_pool (host @ '':'' @ to_string (unat p + 65536)) c = Inr (c\<lparr>cf_pool_host := host, cf_pool_port := p\<rparr>) \<and>
   override_pool (''h'' @ to_string n) c = throw ''--pool needs host:port''"
proof -
  have colon: "CHR '':'' \<notin> set (to_string n)" for n
    using to_string_is_digit [of "CHR '':''" n] by (auto simp: is_digit_def)
  have p: "unat p < 65536" using unsigned_less [of p, where ?'a = nat] by simp
  have port: "override_pool (host @ '':'' @ to_string n) c =
      Inr (c\<lparr>cf_pool_host := host, cf_pool_port := of_nat n\<rparr>)" if "n < 2 ^ 31" for n
  proof -
    have "ucast (of_nat n :: i32) = (of_nat n :: u16)"
      by (rule bit_word_eqI) (simp add: bit_simps)
    then show ?thesis
      using rfind_last [OF colon [of n], of host] stoi_to_string [OF that] by (simp add: override_pool_def)
  qed
  have "(of_nat (unat p + 65536) :: u16) = p" by simp
  moreover have "rfind (CHR '':'') (''h'' @ to_string n) = None"
  proof -
    have "rfind c s = None" if "c \<notin> set s" for c s using that by (induction s) auto
    then show ?thesis using colon [of n] by simp
  qed
  ultimately show ?thesis using port [of "unat p"] port [of "unat p + 65536"] p
    by (simp add: override_pool_def)
qed

text \<open>
  Mining starts only with a valid configuration. Whatever the file and the options say, the
  configuration \<open>main\<close> hands to the \<open>run\<close> command is valid, also after the overrides; a user given
  on the command line wins, a negative number of threads there is ignored. Without a file
  for the totals they go beside the configuration file.
\<close>

theorem prepare_run_valid:
  "ensures (fst (prepare_run J F with_randomx a w)) (\<lambda>(c, stats_path).
     config_ok with_randomx c \<and> cf_user c = (if ra_user a = [] then cf_user c else ra_user a) \<and>
     stats_path = (if cf_stats_file c \<noteq> [] then cf_stats_file c
       else case find_last_slash (ra_config a) of
         None \<Rightarrow> ''minerby-stats.json''
       | Some i \<Rightarrow> take (i + 1) (ra_config a) @ ''minerby-stats.json''))"
proof -
  have valid: "config_ok with_randomx c" if "validate with_randomx c = Inr u" for c u
    using validate_cases [of with_randomx c] that by auto
  have user: "ensures (apply_overrides a c) (\<lambda>c'. cf_user c' = (if ra_user a = [] then cf_user c' else ra_user a))" for c
    unfolding apply_overrides_def Let_def by (intro ensures_rules) simp
  show ?thesis
  proof (cases "from_file J F with_randomx (ra_config a) w")
    case (Pair r w')
    show ?thesis
      unfolding prepare_run_def Pair Let_def case_prod_conv fst_conv
      by (intro ensures_bindR ensures_Inr)
        (use valid ensuresD [OF user] in \<open>auto simp: default_stats_path_def split: option.split\<close>)
  qed
qed

end
