(* ===== verification/App_Run.thy ===== *)
theory App_Run
  imports App Cli Stratum_Client Monero_Client
begin

text \<open>
  The \<open>run\<close> command with its two pool connections, and what holds of its main loop and callbacks.
  The virtual dispatch of \<open>std::unique_ptr<PoolClient>\<close> is the sum of the two clients; it keeps the
  contract of a pool connection, so every lemma on the loop applies to the program's clients.
\<close>

section \<open>Definitions\<close>

subsection \<open>One of two clients\<close>

definition either_ops :: "('c, 'o) PoolClient \<Rightarrow> ('d, 'o) PoolClient \<Rightarrow> ('c + 'd, 'o) PoolClient" where
  "either_ops P Q = \<lparr>
     pc_connect = (\<lambda>x w. case x of
         Inl c \<Rightarrow> bindR (pc_connect P c w) (\<lambda>(ok, c, w). Inr (ok, Inl c, w))
       | Inr d \<Rightarrow> bindR (pc_connect Q d w) (\<lambda>(ok, d, w). Inr (ok, Inr d, w))),
     pc_disconnect = (\<lambda>x w. case x of
         Inl c \<Rightarrow> (let (c, w) = pc_disconnect P c w in (Inl c, w))
       | Inr d \<Rightarrow> (let (d, w) = pc_disconnect Q d w in (Inr d, w))),
     pc_connected = case_sum (pc_connected P) (pc_connected Q),
     pc_poll = (\<lambda>x t w. case x of
         Inl c \<Rightarrow> bindR (pc_poll P c t w) (\<lambda>(ok, c, w). Inr (ok, Inl c, w))
       | Inr d \<Rightarrow> bindR (pc_poll Q d t w) (\<lambda>(ok, d, w). Inr (ok, Inr d, w))),
     pc_submit = (\<lambda>x job nn digest w. case x of
         Inl c \<Rightarrow> bindR (pc_submit P c job nn digest w) (\<lambda>(ok, c, w). Inr (ok, Inl c, w))
       | Inr d \<Rightarrow> bindR (pc_submit Q d job nn digest w) (\<lambda>(ok, d, w). Inr (ok, Inr d, w))),
     pc_difficulty = case_sum (pc_difficulty P) (pc_difficulty Q)\<rparr>"

definition make_client ::
    "Config \<Rightarrow> 'o Callbacks \<Rightarrow> 'o StratumV1Client + 'o MoneroClient" where
  "make_client cfg cb =
     (if cf_protocol cfg = ''monero'' then
        Inr (monero_set_callbacks
          (MoneroClient_init (cf_pool_host cfg) (cf_pool_port cfg) (cf_user cfg) (cf_pass cfg)) cb)
      else
        Inl (stratum_set_callbacks
          (StratumV1Client_init (cf_pool_host cfg) (cf_pool_port cfg) (cf_user cfg) (cf_pass cfg)) cb))"

text \<open>The sockets of the host, seen from the shared state.\<close>

definition lift :: "('z \<Rightarrow> 'r \<times> 'z) \<Rightarrow> 'z app \<Rightarrow> 'r \<times> 'z app" where
  "lift f a = (let (r, z) = f (ap_host a) in (r, a\<lparr>ap_host := z\<rparr>))"

definition lift_os :: "('z, 'a) os_api \<Rightarrow> ('z app, 'a) os_api" where
  "lift_os S = \<lparr>
     os_getaddrinfo = (\<lambda>h p. lift (os_getaddrinfo S h p)),
     os_socket = (\<lambda>ai. lift (os_socket S ai)),
     os_connect = (\<lambda>s ai. lift (os_connect S s ai)),
     os_close = (\<lambda>s a. a\<lparr>ap_host := os_close S s (ap_host a)\<rparr>),
     os_setsockopt = (\<lambda>s t a. a\<lparr>ap_host := os_setsockopt S s t (ap_host a)\<rparr>),
     os_send = (\<lambda>s p. lift (os_send S s p)),
     os_recv = (\<lambda>s k. lift (os_recv S s k)),
     os_now = lift (os_now S)\<rparr>"

abbreviation client_ops ::
    "'j json_api \<Rightarrow> ('o, 'a) os_api \<Rightarrow> ('o StratumV1Client + 'o MoneroClient, 'o) PoolClient" where
  "client_ops J S \<equiv> either_ops (stratum_ops J S) (monero_ops J S)"

subsection \<open>The program\<close>

datatype subcommand =
    Bench u32 i32 string bool
  | Estimate double double double double
  | Run RunArgs

text \<open>
  \<open>main\<close> after the options have been parsed: the exit code, \<open>None\<close> when the main loop has not ended
  after \<open>n\<close> passes. Only the \<open>run\<close> command stands in a \<open>try\<close> block.
\<close>

definition main_run ::
    "nat \<Rightarrow> 'j json_api \<Rightarrow> 'z fs_api \<Rightarrow> 'z host_api \<Rightarrow> 'z listen_api \<Rightarrow> 'z randomx_api \<Rightarrow> thread_order
      \<Rightarrow> ('z, 'a) os_api \<Rightarrow> bool \<Rightarrow> u32 \<Rightarrow> RunArgs \<Rightarrow> 'z \<Rightarrow> int option res" where
  "main_run n J F H L X order S with_randomx hw a z =
     (let (r, z) = prepare_run J F with_randomx a z in
      catchR
        (bindR r (\<lambda>(cfg, stats_path).
         bindR (cmd_run n J F H L X order (client_ops J (lift_os S)) (make_client cfg) with_randomx hw cfg
                 (ra_share_diff a) stats_path (ra_for a) z) (\<lambda>r. Inr (map_option fst r))))
        (\<lambda>e. Inr (Some 1)))"

definition minerby_main ::
    "nat \<Rightarrow> 'j json_api \<Rightarrow> 'z fs_api \<Rightarrow> 'z host_api \<Rightarrow> 'z listen_api \<Rightarrow> 'z randomx_api \<Rightarrow> thread_order
      \<Rightarrow> ('z, 'a) os_api \<Rightarrow> bool \<Rightarrow> u32 \<Rightarrow> subcommand \<Rightarrow> 'z \<Rightarrow> int option res" where
  "minerby_main n J F H L X order S with_randomx hw cmd z =
     (case cmd of
        Bench tn duration engine use_fast \<Rightarrow>
          bindR (cmd_bench H X order with_randomx hw tn duration engine use_fast z) (\<lambda>(code, _). Inr (Some code))
      | Estimate hashrate net_diff reward price \<Rightarrow> Inr (Some (fst (cmd_estimate hashrate net_diff reward price)))
      | Run a \<Rightarrow> main_run n J F H L X order S with_randomx hw a z)"

lemma either_pool_client:
  assumes "pool_client P" "pool_client Q"
  shows "pool_client (either_ops P Q)"
  by unfold_locales
    (auto simp: either_ops_def bindR_eq_Inr split: sum.splits prod.splits
      dest: pool_client.disconnect_closed [OF assms(1)] pool_client.disconnect_closed [OF assms(2)]
        pool_client.poll_false [OF assms(1)] pool_client.poll_false [OF assms(2)]
        pool_client.poll_not_opens [OF assms(1)] pool_client.poll_not_opens [OF assms(2)]
        pool_client.submit_connected [OF assms(1)] pool_client.submit_connected [OF assms(2)]
        pool_client.connect_true [OF assms(1)] pool_client.connect_true [OF assms(2)])

interpretation app: pool_client "client_ops (J :: 'j json_api) (S :: ('o, 'a) os_api)"
  by (rule either_pool_client [OF stratum.pool_client_axioms monero.pool_client_axioms])

section \<open>The job callback as commands of the pool\<close>

text \<open>
  The calls \<open>on_job\<close> makes on the miner's pool, as commands of the machine of the pool: they depend on
  whether the target can be replaced, the seed is new, the pool runs, and the callback returns.
\<close>

definition job_commands :: "MiningJob res \<Rightarrow> bool \<Rightarrow> bool \<Rightarrow> bytes \<Rightarrow> bool \<Rightarrow> bytes cmd list" where
  "job_commands job is_new runs seed returns =
     (case job of
        Inl f \<Rightarrow> []
      | Inr job \<Rightarrow>
          if returns then
            (if is_new then (if runs then [Pause_begin, Pause_end, Rekey seed, Rebuild, Resume] else [Rekey seed]) else []) @
            (if runs then [] else [Start_pool]) @ [Set_begin job, Set_end]
          else if is_new \<and> runs then [Pause_begin, Pause_end, Abandon] else [])"

lemma run_append:
  "run kn (as @ bs) s = (case run kn as s of None \<Rightarrow> None | Some s' \<Rightarrow> run kn bs s')"
proof (induction as arbitrary: s)
  case Nil
  then show ?case by simp
next
  case (Cons x as)
  then show ?case by (auto split: sum.splits option.splits)
qed

lemma run_rekey:
  assumes "rekey H X order with_randomx seed a = (None, a')"
    and "pool s = ap_pool a" "ctl s = Idle" "in_flight (pool s) = 0" "kn_rekey kn seed (engine_st s) = Inr e'"
  shows "\<exists>s'. run kn (map Cmd
       (if seed \<noteq> [] \<and> seed \<noteq> ap_seed a \<and> with_randomx then
          (if running (ap_pool a) then [Pause_begin, Pause_end, Rekey seed, Rebuild, Resume] else [Rekey seed])
        else [])) s = Some s' \<and>
     pool s' = ap_pool a' \<and> ctl s' = Idle \<and> running (ap_pool a') = running (ap_pool a) \<and>
     engine_st s' = (if seed \<noteq> [] \<and> seed \<noteq> ap_seed a \<and> with_randomx then e' else engine_st s)"
  using assms
  by (auto simp: rekey_def Let_def pool_pause_def on_pool_def pause_set_def resume_def rebuild_hashers_def
      split: if_splits option.splits sum.splits)

lemma run_rekey_fails:
  assumes "rekey H X order with_randomx seed a = (Some f, a')"
    and "pool s = ap_pool a" "ctl s = Idle" "in_flight (pool s) = 0"
  shows "\<exists>s'. run kn (map Cmd (if running (ap_pool a) then [Pause_begin, Pause_end, Abandon] else [])) s = Some s' \<and>
     pool s' = ap_pool a' \<and> ctl s' = Idle \<and> engine_st s' = engine_st s \<and> seed \<noteq> [] \<and> seed \<noteq> ap_seed a \<and> with_randomx"
  using assms
  by (auto simp: rekey_def Let_def pool_pause_def on_pool_def pause_set_def split: if_splits option.splits sum.splits)

lemma run_start_set:
  fixes a0 :: "'z app"
  assumes "pool s = ap_pool a" "ctl s = Idle"
  shows "\<exists>s'. run kn (map Cmd ((if running (ap_pool a) then [] else [Start_pool]) @ [Set_begin job, Set_end])) s
       = Some s' \<and> pool s' = set_work job (ap_pool (pool_start H a)) \<and> engine_st s' = engine_st s \<and> ctl s' = Idle"
  using assms
  by (auto simp: start_def pool_start_def on_pool_def set_work_def set_work_bump_def set_work_store_def Let_def)

section \<open>Sockets leave the miner alone\<close>

lemma lift_same: "lift f a = (r, a') \<Longrightarrow> same_work a a'"
  by (auto simp: lift_def same_work_def split: prod.splits)

lemma close_same: "close (lift_os S) c a = (c', a') \<Longrightarrow> same_work a a'"
  by (auto simp: close_def lift_os_def same_work_def split: if_splits)

lemma read_loop_same:
  "ensures (read_loop (lift_os S) s buf a) (\<lambda>(out, buf', a'). same_work a a')"
proof (induction "lift_os S" s buf a rule: read_loop.induct)
  case (1 s buf a)
  obtain r a1 where r: "os_recv (lift_os S) s 4096 a = (r, a1)" by (metis surj_pair)
  then have same: "same_work a a1" by (auto simp: lift_os_def dest: lift_same)
  have IH: "ensures (read_loop (lift_os S) s (buf @ bs) a1) (\<lambda>(out, buf', a'). same_work a a')"
    if "find_char newline buf = None" "r = Some bs" "bs \<noteq> []" "\<not> 4096 < length bs" "\<not> 2 ^ 20 < length (buf @ bs)" for bs
    using 1 [OF that(1) r [symmetric] that(2-5)] same by (auto simp: ensures_def intro: same_work_trans)
  show ?case
    by (subst read_loop.simps)
      (use same r IH in \<open>auto intro!: ensures_Inr split: option.split\<close>)
qed

lemma client_disconnect_same: "ap_pool (snd (pc_disconnect (client_ops J (lift_os S)) x a)) = ap_pool a"
  using close_same [of S _ a]
  by (cases x) (auto simp: either_ops_def stratum_ops_def monero_ops_def stratum_disconnect_def
      monero_disconnect_def same_work_def split: prod.splits)

section \<open>Shutdown\<close>

lemma start_http_running: "start_http L cfg z = (Some h, z') \<Longrightarrow> hs_running h"
  by (auto simp: start_http_def http_start_def Let_def split: prod.splits if_splits)

lemma http_stop_stopped:
  "hs_running h \<Longrightarrow> http_stop L h w = (h', w') \<Longrightarrow> \<not> hs_running h' \<and> hs_listen_sock h' = kInvalid"
  by (auto simp: http_stop_def Let_def split: if_splits)

definition shut_down :: "('c, 'z app) PoolClient \<Rightarrow> HttpServer option \<times> 'c main_loop \<times> 'z app \<Rightarrow> bool" where
  "shut_down P r = (case r of (http, l, a) \<Rightarrow> \<not> running (ap_pool a) \<and> \<not> pc_connected P (ml_client l) \<and>
     (case http of None \<Rightarrow> True | Some h \<Rightarrow> \<not> hs_running h \<and> hs_listen_sock h = kInvalid))"

lemma shutdown_shuts_down:
  assumes "pool_client (en_ops E)" "\<And>x a. ap_pool (snd (pc_disconnect (en_ops E) x a)) = ap_pool a"
    and "\<And>h. http = Some h \<Longrightarrow> hs_running h"
  shows "ensures (shutdown E L http l a) (shut_down (en_ops E))"
proof -
  let ?a1 = "pool_stop (en_host E) a"
  obtain http' a2 where h: "(case http of None \<Rightarrow> (None, ?a1)
      | Some h \<Rightarrow> (let (h, z) = http_stop L h (ap_host ?a1) in (Some h, ?a1\<lparr>ap_host := z\<rparr>))) = (http', a2)"
    by (metis surj_pair)
  obtain c a3 where c: "pc_disconnect (en_ops E) (ml_client l) a2 = (c, a3)" by (metis surj_pair)
  have "case http' of None \<Rightarrow> True | Some h \<Rightarrow> \<not> hs_running h \<and> hs_listen_sock h = kInvalid"
    using h assms(3) http_stop_stopped by (fastforce split: option.splits prod.splits)
  moreover have "ap_pool a2 = ap_pool ?a1" using h by (auto split: option.splits prod.splits)
  then have "\<not> running (ap_pool a3)"
    using assms(2) [of "ml_client l" a2] c by (simp add: pool_stop_def on_pool_def split: if_splits)
  ultimately have final: "shut_down (en_ops E) (http', l\<lparr>ml_client := c\<rparr>, a4)" if "persist E a3 = Inr a4" for a4
    using pool_client.disconnect_closed [OF assms(1) c] ensuresD [OF persist_same that]
    by (simp add: shut_down_def same_work_def)
  have "shutdown E L http l a = bindR (persist E a3) (\<lambda>a. Inr (http', l\<lparr>ml_client := c\<rparr>, a))"
    unfolding shutdown_def Let_def [of ?a1] h by (simp add: c)
  then show ?thesis using final by (simp add: ensures_def bindR_eq_Inr)
qed

lemma set_up_ready:
  "ensures (set_up J F H L X P c with_randomx hw cfg stats_path run_for z) (\<lambda>r.
     case r of None \<Rightarrow> True | Some (E, http, l, a) \<Rightarrow> en_ops E = P \<and> (\<forall>h. http = Some h \<longrightarrow> hs_running h))"
  unfolding set_up_def Let_def
  by (intro ensures_rules) (auto dest: start_http_running)

section \<open>A bench run\<close>

lemma bench_loop_pool: "ap_pool (bench_loop H n a) = ap_pool a"
  by (induction H n a rule: bench_loop.induct)
    (auto simp: Let_def dest!: app_stop_keeps app_now_keeps split: prod.splits)

lemma pool_stop_pool:
  "\<not> running (ap_pool (pool_stop H a))" "work (ap_pool (pool_stop H a)) = work (ap_pool a)"
  "threads (ap_pool (pool_stop H a)) = threads (ap_pool a)"
  by (simp_all add: pool_stop_def on_pool_def)

lemma pool_start_pool:
  "work (ap_pool (pool_start H a)) = work (ap_pool a)" "threads (ap_pool (pool_start H a)) = threads (ap_pool a)"
  by (simp_all add: pool_start_def on_pool_def)

lemma app_now_pool: "ap_pool (snd (app_now H a)) = ap_pool a"
  by (simp add: app_now_def split_beta)

lemmas bench_pool = bench_loop_pool pool_stop_pool pool_start_pool app_now_pool

section \<open>A silent pool\<close>

text \<open>
  A connection that is always made and on which nothing ever arrives, on a world that is a clock
  which advances by 100 seconds with every reading and stops after 1000 seconds; its files cannot
  be opened.
\<close>

definition silent_ops :: "(bool, 'o) PoolClient" where
  "silent_ops = \<lparr>pc_connect = (\<lambda>c a. Inr (True, True, a)), pc_disconnect = (\<lambda>c a. (False, a)),
     pc_connected = (\<lambda>c. c), pc_poll = (\<lambda>c t a. Inr (c, c, a)), pc_submit = (\<lambda>c job nn digest a. Inr (c, c, a)),
     pc_difficulty = (\<lambda>c. Fin 1)\<rparr>"

definition clock_host :: "int host_api" where
  "clock_host = \<lparr>ho_now = (\<lambda>z. (z, z + 100 * sec)), ho_stop = (\<lambda>z. (1000 * sec \<le> z, z)), ho_sleep = (\<lambda>z. z),
     ho_sleep_1s = (\<lambda>z. z),
     ho_hashes = (\<lambda>z. 0), ho_spawn = (\<lambda>n z. z), ho_await_idle = (\<lambda>z. z), ho_join = (\<lambda>z. z)\<rparr>"

definition closed_fs :: "int fs_api" where
  "closed_fs = \<lparr>fs_read = (\<lambda>p z. (None, z)), fs_truncate = (\<lambda>p z. (False, z)), fs_write = (\<lambda>p s z. z),
     fs_remove = (\<lambda>p z. z), fs_rename = (\<lambda>p q z. (False, z))\<rparr>"

definition silent_env :: "(bool, int, jv) env" where
  "silent_env = \<lparr>en_json = jv_api [], en_fs = closed_fs, en_host = clock_host, en_ops = silent_ops,
     en_base = LifetimeStats_init, en_stats_path = ''s'', en_run_start = 0, en_run_for = 0\<rparr>"

definition working_app :: "int \<Rightarrow> int app" where
  "working_app t = \<lparr>ap_pool = (MinerPool_init 2 False)\<lparr>running := True, work := Some MiningJob_init\<rparr>,
     ap_metrics = Metrics_init 0 0, ap_rx = None, ap_seed = [], ap_last_job_at = 0, ap_host = t\<rparr>"

definition loop_start :: "'c \<Rightarrow> 'c main_loop" where
  "loop_start c = \<lparr>ml_client = c, ml_backoff = 1, ml_next_status = 10000 * sec, ml_next_persist = 10000 * sec\<rparr>"

definition frozen_host :: "'z host_api" where
  "frozen_host = \<lparr>ho_now = (\<lambda>z. (0, z)), ho_stop = (\<lambda>z. (False, z)), ho_sleep = (\<lambda>z. z), ho_sleep_1s = (\<lambda>z. z),
     ho_hashes = (\<lambda>z. 0), ho_spawn = (\<lambda>n z. z), ho_await_idle = (\<lambda>z. z), ho_join = (\<lambda>z. z)\<rparr>"

definition keyed_app :: "rx_world app" where
  "keyed_app = \<lparr>ap_pool = (MinerPool_init 2 False)\<lparr>running := True\<rparr>, ap_metrics = Metrics_init 0 0,
     ap_rx = Some \<lparr>rx_opt = Options_init, rx_seed = [9], seeded = True, fast = False, init_threads = 1, rx_flags = 8,
                  rx_cache = Some 1, rx_dataset = None\<rparr>,
     ap_seed = [9], ap_last_job_at = 0, ap_host = rx_world_init False False\<rparr>"

lemma silent_pool: "pool_client silent_ops"
  by unfold_locales (auto simp: silent_ops_def)

section \<open>Properties\<close>






text \<open>
  C30: The end of the \<open>run\<close> command. When \<open>cmd_run\<close> returns with code 0, with either of the program's pool
  connections, the worker threads have been stopped, the connection is closed and the metrics
  endpoint, if there was one, no longer listens; code 1 is the build without the engine.
\<close>

theorem run_shuts_down:
  "ensures (cmd_run n J F H L X order (client_ops J (lift_os S)) (make_client cfg) with_randomx hw cfg
       test_share_diff stats_path run_for z) (\<lambda>r.
     case r of
       None \<Rightarrow> True
     | Some (code, None) \<Rightarrow> code = 1
     | Some (code, Some (http, l, a)) \<Rightarrow> code = 0 \<and> \<not> running (ap_pool a) \<and>
         \<not> pc_connected (client_ops J (lift_os S)) (ml_client l) \<and>
         (case http of None \<Rightarrow> True | Some h \<Rightarrow> \<not> hs_running h \<and> hs_listen_sock h = kInvalid))"
  unfolding cmd_run_def
proof (intro ensures_rules, goal_cases)
  case (3 r y E b http ba l a x ended bb l' a' final)
  then have "en_ops E = client_ops J (lift_os S)" "\<And>h. http = Some h \<Longrightarrow> hs_running h"
    using ensuresD [OF set_up_ready 3(1)] by auto
  then have "ensures (shutdown E L http l' a') (shut_down (client_ops J (lift_os S)))"
    using shutdown_shuts_down [of E http L l' a'] app.pool_client_axioms client_disconnect_same by metis
  with 3 show ?case by (auto simp: ensures_def shut_down_def)
qed simp_all

text \<open>
  The totals accumulate. After \<open>persist\<close> the file holds the totals of the earlier sessions plus those
  of this one, counted once however often they were saved before, and one session more; this
  is what the next start loads as its base.
\<close>

theorem persist_accumulates:
  assumes "files (en_fs E) stored" "json_numbers (en_json E)" "CHR 0x00 \<notin> set (en_stats_path E)"
    and now: "ho_now (en_host E) (ap_host a) = (now, z)"
    and s: "s = session_totals (en_base E) (ap_metrics a) (ho_hashes (en_host E) (ap_host a)) (seconds (now - en_run_start E))"
    and "save_write (en_json E) (en_fs E) (en_stats_path E) s z = Inr (True, z1)"
    and "fst (fs_rename (en_fs E) (en_stats_path E @ ''.tmp'') (en_stats_path E) (save_remove (en_fs E) (en_stats_path E) z1))"
    and "jdump2 (en_json E) (stats_json (en_json E) s) = Inr body"
    and "jread (en_json E) (body @ [CHR 0x0A]) = Inr (stats_json (en_json E) s)"
  shows "\<exists>a' z'. persist E a = Inr a' \<and> load (en_json E) (en_fs E) (en_stats_path E) (ap_host a') = Inr (s, z') \<and>
     ls_accepted s = ls_accepted (en_base E) + mt_accepted (ap_metrics a) \<and>
     ls_sessions s = ls_sessions (en_base E) + 1 \<and> ap_metrics a' = ap_metrics a"
proof -
  obtain w2 w3 where "save (en_json E) (en_fs E) (en_stats_path E) s z = Inr w2"
      "load (en_json E) (en_fs E) (en_stats_path E) w2 = Inr (s, w3)"
    using save_then_load [OF assms(1-3,6-9)] by blast
  then show ?thesis using now s by (simp add: persist_def app_now_def session_totals_def)
qed

definition first_session :: LifetimeStats where
  "first_session = session_totals LifetimeStats_init (Metrics_init 0 0) 0 (seconds 0)"

definition disk_env :: "(bool, disk, jv) env" where
  "disk_env = \<lparr>en_json = jv_api [(''one'', stats_json (jv_api []) first_session), (''one'' @ [CHR 0x0A], stats_json (jv_api []) first_session)],
     en_fs = disk_api, en_host = frozen_host, en_ops = silent_ops, en_base = LifetimeStats_init, en_stats_path = ''s'',
     en_run_start = 0, en_run_for = 0\<rparr>"

theorem persist_accumulates_witness:
  "\<exists>a' z'. persist disk_env \<lparr>ap_pool = MinerPool_init 1 False, ap_metrics = Metrics_init 0 0, ap_rx = None, ap_seed = [],
        ap_last_job_at = 0, ap_host = \<lparr>contents = [], read_only = False\<rparr>\<rparr> = Inr a' \<and>
     load (en_json disk_env) disk_api ''s'' (ap_host a') = Inr (first_session, z') \<and> ls_sessions first_session = 1"
proof -
  let ?z = "\<lparr>contents = [], read_only = False\<rparr>"
  let ?a = "\<lparr>ap_pool = MinerPool_init 1 False, ap_metrics = Metrics_init 0 0, ap_rx = None, ap_seed = [],
        ap_last_job_at = 0, ap_host = ?z\<rparr>"
  have e: "en_fs disk_env = disk_api" "en_stats_path disk_env = ''s''" "en_host disk_env = frozen_host"
    "en_base disk_env = LifetimeStats_init" "en_run_start disk_env = 0"
    by (simp_all add: disk_env_def)
  have j: "jdump2 (en_json disk_env) (stats_json (en_json disk_env) first_session) = Inr ''one''"
    "jread (en_json disk_env) (''one'' @ [CHR 0x0A]) = Inr (stats_json (en_json disk_env) first_session)"
    by (simp_all add: disk_env_def jv_api_def stats_json_def)
  have n: "json_numbers (en_json disk_env)"
    unfolding disk_env_def env.select_convs by (rule jv_numbers.json_numbers_axioms)
  obtain z1 where z1: "save_write (en_json disk_env) disk_api ''s'' first_session ?z = Inr (True, z1)"
      "fst (fs_rename disk_api (''s'' @ ''.tmp'') ''s'' (save_remove disk_api ''s'' z1))"
    using j by (auto simp: save_write_def save_remove_def disk_api_def c_str_def Let_def)
  have "\<exists>a' z'. persist disk_env ?a = Inr a' \<and>
     load (en_json disk_env) (en_fs disk_env) (en_stats_path disk_env) (ap_host a') = Inr (first_session, z') \<and>
     ls_accepted first_session = ls_accepted (en_base disk_env) + mt_accepted (ap_metrics ?a) \<and>
     ls_sessions first_session = ls_sessions (en_base disk_env) + 1 \<and> ap_metrics a' = ap_metrics ?a"
    by (rule persist_accumulates [where stored = "\<lambda>p w. map_of (contents w) p" and now = 0 and z = ?z and ?z1.0 = z1
        and body = "''one''"])
      (use z1 j n disk.files_axioms in \<open>simp_all add: e first_session_def frozen_host_def\<close>)
  then show ?thesis by (auto simp: e LifetimeStats_init_def)
qed

text \<open>
  A reconnect the server asks for leaves stale work. On the message \<open>client.reconnect\<close> the client
  closes the connection but \<open>poll\<close> returns true, so the main loop does not clear the work: the pass
  ends unconnected with the pool as it was, and the workers go on with the old job while the loop
  connects again.
\<close>

theorem reconnect_keeps_work:
  assumes "en_ops E = client_ops J (lift_os S)" "ml_client l = Inl c" "stratum_connected c"
    and "read_line (lift_os S) (sc_conn c) 1000 a = Inr (Some line, conn, a1)" "line \<noteq> []"
    and "jparse J line = Inr msg" "value_string J msg ''method'' [] = Inr ''client.reconnect''"
    and "\<And>z t z'. ho_now (en_host E) z = (t, z') \<Longrightarrow> t \<le> ap_last_job_at a + kJobTimeout"
  shows "ensures (poll_pass E l a) (\<lambda>(l', a'). \<not> pc_connected (en_ops E) (ml_client l') \<and> ap_pool a' = ap_pool a)"
proof -
  obtain conn' a2 where cl: "close (lift_os S) conn a1 = (conn', a2)" by (metis surj_pair)
  have same: "same_work a a2"
    using close_same [OF cl] ensuresD [OF read_loop_same] assms(4)
    by (fastforce simp: read_line_def set_recv_timeout_def lift_os_def same_work_def bindR_eq_Inr split: if_splits)
  have closed: "\<not> pc_connected (en_ops E) (Inl (c\<lparr>sc_conn := conn'\<rparr>))"
    using close_closed [OF cl] assms(1) by (simp add: either_ops_def stratum_ops_def stratum_connected_def is_open_def)
  have poll: "pc_poll (en_ops E) (ml_client l) 1000 a = Inr (True, Inl (c\<lparr>sc_conn := conn'\<rparr>), a2)"
    using assms(1,2,4-7) cl by (simp add: either_ops_def stratum_ops_def stratum_poll_def handle_line_def)
  have "\<not> kJobTimeout < now - ap_last_job_at a2" if "app_now (en_host E) a2 = (now, a3)" for now a3
    using assms(8) [of "ap_host a2"] that same
    by (force simp: app_now_def same_work_def split: prod.splits)
  note fresh = this
  have "\<not> pc_connected (en_ops E) (ml_client l') \<and> ap_pool a' = ap_pool a" if "poll_pass E l a = Inr (l', a')" for l' a'
    using that
  proof (cases rule: poll_pass_cases)
    case (3 c' a1' now a2')
    with poll closed same show ?thesis by (simp add: same_work_def)
  next
    case (2 c' a1' now a2')
    with poll fresh [of now a2'] show ?thesis by simp
  qed (use poll in simp)
  then show ?thesis by (rule ensures_pairI)
qed

definition reconnect_json :: "jv json_api" where
  "reconnect_json = jv_api [(''r'', JObj [(''method'', JStr ''client.reconnect'')])]"

definition connected_client :: "net app StratumV1Client" where
  "connected_client = (StratumV1Client_init ''p'' 1 ''u'' ''x'')\<lparr>sc_conn := \<lparr>sock = 3, rx = ''r'' @ [newline]\<rparr>\<rparr>"

definition reconnect_env :: "(net app StratumV1Client + net app MoneroClient, net, jv) env" where
  "reconnect_env = \<lparr>en_json = reconnect_json,
     en_fs = \<lparr>fs_read = (\<lambda>p z. (None, z)), fs_truncate = (\<lambda>p z. (False, z)), fs_write = (\<lambda>p s z. z),
       fs_remove = (\<lambda>p z. z), fs_rename = (\<lambda>p q z. (False, z))\<rparr>,
     en_host = frozen_host, en_ops = client_ops reconnect_json (lift_os net_api), en_base = LifetimeStats_init,
     en_stats_path = ''s'', en_run_start = 0, en_run_for = 0\<rparr>"

definition mining_app :: "net app" where
  "mining_app = \<lparr>ap_pool = (MinerPool_init 2 False)\<lparr>running := True, work := Some MiningJob_init\<rparr>,
     ap_metrics = Metrics_init 0 0, ap_rx = None, ap_seed = [], ap_last_job_at = 0,
     ap_host = \<lparr>inbox = [], delivered = [], outbox = [], cap = 10, clock = 0, fds = [3]\<rparr>\<rparr>"

theorem reconnect_keeps_work_witness:
  "case poll_pass reconnect_env (loop_start (Inl connected_client)) mining_app of
     Inl _ \<Rightarrow> False
   | Inr (l', a') \<Rightarrow> \<not> pc_connected (en_ops reconnect_env) (ml_client l') \<and> work (ap_pool a') = Some MiningJob_init"
proof -
  let ?l = "loop_start (Inl connected_client) :: (net app StratumV1Client + net app MoneroClient) main_loop"
  have read: "read_line (lift_os net_api) (sc_conn connected_client) 1000 mining_app
      = Inr (Some ''r'', \<lparr>sock = 3, rx = []\<rparr>, mining_app)"
    by (simp add: read_line_def read_loop.simps connected_client_def set_recv_timeout_def lift_os_def net_api_def
        kInvalid_def strip_cr_def)
  have "ensures (poll_pass reconnect_env ?l mining_app)
     (\<lambda>(l', a'). \<not> pc_connected (en_ops reconnect_env) (ml_client l') \<and> ap_pool a' = ap_pool mining_app)"
    by (rule reconnect_keeps_work [where J = reconnect_json and S = net_api, OF _ _ _ read])
      (auto simp: reconnect_env_def loop_start_def connected_client_def stratum_connected_def is_open_def
        kInvalid_def reconnect_json_def jv_api_simps frozen_host_def mining_app_def kJobTimeout_def sec_def)
  moreover have "\<exists>r. poll_pass reconnect_env ?l mining_app = Inr r"
    using read
    by (simp add: poll_pass_def reconnect_env_def loop_start_def either_ops_def stratum_ops_def stratum_poll_def
        handle_line_def reconnect_json_def jv_api_simps close_def kInvalid_def lift_os_def app_now_def
        frozen_host_def mining_app_def kJobTimeout_def sec_def persist_due_def split_beta Let_def)
  ultimately show ?thesis by (auto simp: ensures_def mining_app_def)
qed

text \<open>
  A bench run measures and stops. With an engine the build has, \<open>cmd_bench\<close> gives the pool a job with
  room for its nonce and a target that only an all-zero digest meets, and ends with the workers
  stopped and code 0; the other engines give code 2.
\<close>

theorem bench_measures:
  assumes "length digest = 32"
  shows "ensures (cmd_bench H X order with_randomx hw n duration engine use_fast z) (\<lambda>(code, r).
     case r of
       None \<Rightarrow> code = 2 \<and> engine \<noteq> ''sha256d''
     | Some a \<Rightarrow> code = 0 \<and> \<not> running (ap_pool a) \<and> threads (ap_pool a) \<noteq> 0 \<and>
         (case work (ap_pool a) of
            None \<Rightarrow> False
          | Some job \<Rightarrow> room job (blob job) \<and> meets_target digest (target job) = (le_value digest = 0)))"
  unfolding cmd_bench_def
proof (intro ensures_bindR ensures_option, goal_cases)
  case (1 r)
  then have "engine \<noteq> ''sha256d''" by (auto simp: bench_engine_def)
  then show ?case by (simp add: ensures_Inr)
next
  case (2 r y)
  obtain rxc job z1 where y: "y = (rxc, job, z1)" by (cases y)
  have job: "room job (blob job)" "target job = replicate 32 0" "length (target job) = 32"
    using 2 y by (auto simp: bench_engine_def room_def bindR_eq_Inr Let_def split: if_splits)
  then have "meets_target digest (target job) = (le_value digest = 0)"
    using meets_target_value [OF assms job(3)] by simp
  with job show ?case
    by (simp add: y Let_def split_beta ensures_def bench_pool set_work_def set_work_bump_def set_work_store_def
        MinerPool_init_def room_def)
qed

theorem bench_measures_witness:
  "case cmd_bench frozen_host rx_api (\<lambda>rs. rs) False 4 0 3 ''sha256d'' False (rx_world_init False False) of
     Inr (code, Some a) \<Rightarrow> code = 0 \<and> \<not> running (ap_pool a) \<and>
       (case work (ap_pool a) of None \<Rightarrow> False | Some job \<Rightarrow> \<not> meets_target (1 # replicate 31 0) (target job))
   | _ \<Rightarrow> False"
proof -
  obtain code a where r: "cmd_bench frozen_host rx_api (\<lambda>rs. rs) False 4 0 3 ''sha256d'' False (rx_world_init False False)
      = Inr (code, Some a)"
    by (auto simp: cmd_bench_def bench_engine_def Let_def split_beta)
  have "ensures (cmd_bench frozen_host rx_api (\<lambda>rs. rs) False 4 0 3 ''sha256d'' False (rx_world_init False False)) (\<lambda>(code, r).
     case r of
       None \<Rightarrow> code = 2 \<and> ''sha256d'' \<noteq> ''sha256d''
     | Some a \<Rightarrow> code = 0 \<and> \<not> running (ap_pool a) \<and> threads (ap_pool a) \<noteq> 0 \<and>
         (case work (ap_pool a) of
            None \<Rightarrow> False
          | Some job \<Rightarrow> room job (blob job) \<and> meets_target (1 # replicate 31 0) (target job) = (le_value (1 # replicate 31 0) = 0)))"
    by (rule bench_measures) simp
  from ensuresD [OF this r] have "code = 0" "\<not> running (ap_pool a)"
    "case work (ap_pool a) of None \<Rightarrow> False | Some job \<Rightarrow> meets_target (1 # replicate 31 0) (target job) = (le_value (1 # replicate 31 0) = 0)"
    by (auto split: option.splits)
  moreover have "le_value (1 # replicate 31 0) \<noteq> 0" by simp
  ultimately show ?thesis unfolding r by (simp split: option.splits)
qed

text \<open>
  Where exceptions end. No exception leaves the \<open>run\<close> command: a configuration that cannot be read or
  is not valid and every exception of a handler ends the program with code 1. The \<open>bench\<close> command is
  not protected: an engine that cannot be allocated leaves \<open>main\<close> as an exception.
\<close>

theorem main_exceptions:
  "minerby_main n J F H L X order S with_randomx hw (Run a) z \<noteq> Inl (Throw e) \<and>
   (case fst (prepare_run J F with_randomx a z) of
      Inl (Throw _) \<Rightarrow> minerby_main n J F H L X order S with_randomx hw (Run a) z = Inr (Some 1)
    | _ \<Rightarrow> True) \<and>
   (case RandomXContext_new X hw (Options_init\<lparr>opt_fast_mode := use_fast\<rparr>) z of
      Inl f \<Rightarrow> minerby_main n J F H L X order S True hw (Bench tn duration ''randomx'' use_fast) z = Inl f
    | _ \<Rightarrow> True)"
proof (intro conjI)
  show "minerby_main n J F H L X order S with_randomx hw (Run a) z \<noteq> Inl (Throw e)"
    by (auto simp: minerby_main_def main_run_def catchR_def split: prod.splits sum.splits fault.splits)
  show "case fst (prepare_run J F with_randomx a z) of
      Inl (Throw _) \<Rightarrow> minerby_main n J F H L X order S with_randomx hw (Run a) z = Inr (Some 1) | _ \<Rightarrow> True"
    by (cases "prepare_run J F with_randomx a z")
      (auto simp: minerby_main_def main_run_def split: sum.splits fault.splits)
  show "case RandomXContext_new X hw (Options_init\<lparr>opt_fast_mode := use_fast\<rparr>) z of
      Inl f \<Rightarrow> minerby_main n J F H L X order S True hw (Bench tn duration ''randomx'' use_fast) z = Inl f
    | _ \<Rightarrow> True"
    by (auto simp: minerby_main_def cmd_bench_def bench_engine_def Let_def split: sum.splits)
qed

end
