(* ===== verification/Command_Line.thy ===== *)
theory Command_Line
  imports App_Run
begin

text \<open>
  The options of \<open>main\<close> (\<open>src/app/main.cpp\<close>): what each subcommand declares to the option library, the values
  its variables start with, and the program from its arguments to its exit code. The library is the
  parameter \<open>parse\<close>: given the declarations and the arguments it ends with an exit code (a message or an
  error), or answers with the subcommand and the value of every option that was given; it leaves the
  variables of the others alone. The two signal handlers and the log level have no counterpart here.
\<close>

section \<open>Definitions\<close>

datatype opt_type = Flag_opt | Unsigned_opt | Int_opt | Double_opt | String_opt

datatype opt_value = Flag_set | Unsigned_val u32 | Int_val i32 | Double_val double | String_val string

record opt_decl =
  od_short :: string
  od_long :: string
  od_type :: opt_type
  od_required :: bool
  od_positive :: bool

definition opt_decl :: "string \<Rightarrow> string \<Rightarrow> opt_type \<Rightarrow> opt_decl" where
  "opt_decl short long ty = \<lparr>od_short = short, od_long = long, od_type = ty, od_required = False, od_positive = False\<rparr>"

definition main_options :: "opt_decl list" where
  "main_options = [opt_decl ''-v'' ''--verbose'' Flag_opt]"

definition bench_options :: "opt_decl list" where
  "bench_options =
     [opt_decl ''-t'' ''--threads'' Unsigned_opt,
      (opt_decl ''-s'' ''--seconds'' Int_opt)\<lparr>od_positive := True\<rparr>,
      opt_decl ''-e'' ''--engine'' String_opt,
      opt_decl '''' ''--fast'' Flag_opt]"

definition run_options :: "opt_decl list" where
  "run_options =
     [(opt_decl ''-c'' ''--config'' String_opt)\<lparr>od_required := True\<rparr>,
      opt_decl '''' ''--pool'' String_opt,
      opt_decl '''' ''--user'' String_opt,
      opt_decl '''' ''--threads'' Int_opt,
      opt_decl '''' ''--metrics-port'' Int_opt,
      opt_decl '''' ''--share-diff'' Double_opt,
      opt_decl '''' ''--for'' Int_opt]"

definition estimate_options :: "opt_decl list" where
  "estimate_options =
     [(opt_decl '''' ''--hashrate'' Double_opt)\<lparr>od_required := True\<rparr>,
      (opt_decl '''' ''--net-difficulty'' Double_opt)\<lparr>od_required := True\<rparr>,
      opt_decl '''' ''--block-reward'' Double_opt,
      opt_decl '''' ''--xmr-price'' Double_opt]"

definition subcommands :: "(string \<times> opt_decl list) list" where
  "subcommands = [(''bench'', bench_options), (''run'', run_options), (''estimate'', estimate_options)]"

text \<open>A variable bound to an option keeps its first value unless the option was given.\<close>

type_synonym given_options = "string \<Rightarrow> opt_value option"

fun unsigned_or :: "u32 \<Rightarrow> opt_value option \<Rightarrow> u32" where
  "unsigned_or d (Some (Unsigned_val v)) = v" | "unsigned_or d _ = d"

fun int_or :: "i32 \<Rightarrow> opt_value option \<Rightarrow> i32" where
  "int_or d (Some (Int_val v)) = v" | "int_or d _ = d"

fun double_or :: "double \<Rightarrow> opt_value option \<Rightarrow> double" where
  "double_or d (Some (Double_val v)) = v" | "double_or d _ = d"

fun string_or :: "string \<Rightarrow> opt_value option \<Rightarrow> string" where
  "string_or d (Some (String_val v)) = v" | "string_or d _ = d"

definition bench_args :: "given_options \<Rightarrow> subcommand" where
  "bench_args g =
     Bench (unsigned_or 0 (g ''--threads'')) (int_or 10 (g ''--seconds'')) (string_or ''sha256d'' (g ''--engine''))
       (g ''--fast'' \<noteq> None)"

definition run_args :: "given_options \<Rightarrow> RunArgs" where
  "run_args g = \<lparr>ra_config = string_or [] (g ''--config''), ra_pool = string_or [] (g ''--pool''),
     ra_user = string_or [] (g ''--user''), ra_threads = int_or (- 1) (g ''--threads''),
     ra_metrics = int_or (- 1) (g ''--metrics-port''), ra_share_diff = double_or (Fin 0) (g ''--share-diff''),
     ra_for = int_or 0 (g ''--for'')\<rparr>"

definition estimate_args :: "given_options \<Rightarrow> subcommand" where
  "estimate_args g =
     Estimate (double_or (Fin 0) (g ''--hashrate'')) (double_or (Fin 0) (g ''--net-difficulty''))
       (double_or (rnd (6 / 10)) (g ''--block-reward'')) (double_or (Fin 0) (g ''--xmr-price''))"

definition chosen :: "string \<Rightarrow> given_options \<Rightarrow> subcommand option" where
  "chosen name g =
     (if name = ''bench'' then Some (bench_args g)
      else if name = ''estimate'' then Some (estimate_args g)
      else if name = ''run'' then Some (Run (run_args g))
      else None)"

type_synonym option_parser =
  "opt_decl list \<Rightarrow> (string \<times> opt_decl list) list \<Rightarrow> string list \<Rightarrow> int + string \<times> given_options"

text \<open>\<open>main\<close>: the exit code, \<open>None\<close> when the main loop has not ended after \<open>n\<close> passes.\<close>

definition minerby_argv ::
    "option_parser \<Rightarrow> nat \<Rightarrow> 'j json_api \<Rightarrow> 'z fs_api \<Rightarrow> 'z host_api \<Rightarrow> 'z listen_api \<Rightarrow> 'z randomx_api \<Rightarrow> thread_order
      \<Rightarrow> ('z, 'a) os_api \<Rightarrow> bool \<Rightarrow> u32 \<Rightarrow> string list \<Rightarrow> 'z \<Rightarrow> int option res" where
  "minerby_argv parse n J F H L X order S with_randomx hw argv z =
     (case parse main_options subcommands argv of
        Inl code \<Rightarrow> Inr (Some code)
      | Inr (name, g) \<Rightarrow>
          (case chosen name g of
             None \<Rightarrow> Inr (Some 0)
           | Some cmd \<Rightarrow> minerby_main n J F H L X order S with_randomx hw cmd z))"

section \<open>The option library\<close>

fun typed :: "opt_type \<Rightarrow> opt_value \<Rightarrow> bool" where
  "typed Flag_opt Flag_set = True"
| "typed Unsigned_opt (Unsigned_val v) = True"
| "typed Int_opt (Int_val v) = True"
| "typed Double_opt (Double_val v) = True"
| "typed String_opt (String_val v) = True"
| "typed _ _ = False"

fun positive :: "opt_value \<Rightarrow> bool" where
  "positive (Unsigned_val v) = (v \<noteq> 0)"
| "positive (Int_val v) = (0 < sint v)"
| "positive (Double_val v) = dlt (Fin 0) v"
| "positive _ = False"

definition obeys :: "given_options \<Rightarrow> opt_decl \<Rightarrow> bool" where
  "obeys g d =
     (case g (od_long d) of
        None \<Rightarrow> \<not> od_required d
      | Some v \<Rightarrow> typed (od_type d) v \<and> (od_positive d \<longrightarrow> positive v))"

lemma typed_conv [simp]:
  "typed Flag_opt v = (v = Flag_set)" "typed Unsigned_opt v = (\<exists>x. v = Unsigned_val x)"
  "typed Int_opt v = (\<exists>x. v = Int_val x)" "typed Double_opt v = (\<exists>x. v = Double_val x)"
  "typed String_opt v = (\<exists>x. v = String_val x)"
  by (cases v; simp)+

lemma obeys_required: "obeys g d \<Longrightarrow> od_required d \<longrightarrow> (\<exists>v. g (od_long d) = Some v \<and> typed (od_type d) v)"
  by (simp add: obeys_def split: option.splits)

text \<open>
  What the library documents: exactly one of the declared subcommands is chosen, its required options are
  there, and every value has the type of its variable and has passed its check.
\<close>

locale option_library =
  fixes parse :: option_parser
  assumes parse_declared: "parse globals table argv = Inr (name, g) \<Longrightarrow> name \<in> fst ` set table"
    and parse_obeys: "\<lbrakk>parse globals table argv = Inr (name, g); map_of table name = Some ds; d \<in> set ds\<rbrakk> \<Longrightarrow> obeys g d"
begin

lemma parse_chosen:
  assumes "parse main_options subcommands argv = Inr (name, g)"
  obtains "name = ''bench''" "\<forall>d\<in>set bench_options. obeys g d"
    | "name = ''estimate''" "\<forall>d\<in>set estimate_options. obeys g d"
    | "name = ''run''" "\<forall>d\<in>set run_options. obeys g d"
proof -
  have "name = ''bench'' \<or> name = ''run'' \<or> name = ''estimate''"
    using parse_declared [OF assms] by (auto simp: subcommands_def)
  moreover have "obeys g d" if "map_of subcommands name = Some ds" "d \<in> set ds" for d ds
    using parse_obeys [OF assms that] .
  ultimately show thesis using that by (auto simp: subcommands_def)
qed

lemma bench_runs:
  assumes "parse main_options subcommands argv = Inr (''bench'', g)"
  obtains tn duration engine use_fast where "bench_args g = Bench tn duration engine use_fast" "0 < sint duration"
proof -
  have "obeys g ((opt_decl ''-s'' ''--seconds'' Int_opt)\<lparr>od_positive := True\<rparr>)"
    using assms by (rule parse_chosen) (auto simp: bench_options_def)
  then have "0 < sint (int_or 10 (g ''--seconds''))"
    by (cases "g ''--seconds''" rule: option.exhaust; cases "the (g ''--seconds'')")
      (auto simp: obeys_def opt_decl_def)
  then show thesis by (rule that [rotated]) (simp add: bench_args_def)
qed

end

text \<open>
  A parser that meets this: the subcommand, then flags and pairs of a long name and a value; doubles are read
  as whole numbers. Its exit codes are those of the library's errors.
\<close>

fun read_value :: "opt_type \<Rightarrow> string \<Rightarrow> opt_value option" where
  "read_value Flag_opt s = None"
| "read_value Unsigned_opt s = (case stoi s of Inr v \<Rightarrow> if 0 \<le> sint v then Some (Unsigned_val v) else None | Inl _ \<Rightarrow> None)"
| "read_value Int_opt s = (case stoi s of Inr v \<Rightarrow> Some (Int_val v) | Inl _ \<Rightarrow> None)"
| "read_value Double_opt s = (case stoi s of Inr v \<Rightarrow> Some (Double_val (Fin (of_int (sint v)))) | Inl _ \<Rightarrow> None)"
| "read_value String_opt s = Some (String_val s)"

fun read_options :: "opt_decl list \<Rightarrow> string list \<Rightarrow> given_options \<Rightarrow> given_options option" where
  "read_options ds [] g = Some g"
| "read_options ds (x # xs) g =
     (case find (\<lambda>d. od_long d = x) ds of
        None \<Rightarrow> None
      | Some d \<Rightarrow>
          if od_type d = Flag_opt then read_options ds xs (g(x \<mapsto> Flag_set))
          else (case xs of
             [] \<Rightarrow> None
           | y # ys \<Rightarrow> (case read_value (od_type d) y of None \<Rightarrow> None | Some v \<Rightarrow> read_options ds ys (g(x \<mapsto> v)))))"

definition plain_parse :: option_parser where
  "plain_parse globals table argv =
     (case argv of
        [] \<Rightarrow> Inl 106
      | name # args \<Rightarrow>
          (case map_of table name of
             None \<Rightarrow> Inl 109
           | Some ds \<Rightarrow>
               (case read_options ds args Map.empty of
                  None \<Rightarrow> Inl 104
                | Some g \<Rightarrow> if list_all (obeys g) ds then Inr (name, g) else Inl 105)))"

lemma plain_parse_declared: "plain_parse globals table argv = Inr (name, g) \<Longrightarrow> name \<in> fst ` set table"
  by (auto simp: plain_parse_def split: list.splits option.splits if_splits dest!: map_of_SomeD intro: rev_image_eqI)

interpretation plain: option_library plain_parse
  by unfold_locales (erule plain_parse_declared,
    auto simp: plain_parse_def list_all_iff split: list.splits option.splits if_splits)

section \<open>Properties\<close>

lemma cmd_run_codes:
  "cmd_run n J F H L X order P mk with_randomx hw cfg d path secs z = Inr (Some (code, r)) \<Longrightarrow> code = 0 \<or> code = 1"
  by (auto simp: cmd_run_def bindR_eq_Inr split: option.splits prod.splits if_splits)

lemma run_codes:
  "minerby_main n J F H L X order S with_randomx hw (Run a) z
     \<in> {Inr None, Inr (Some 0), Inr (Some 1), Inl Undefined}"
proof -
  obtain r w where "prepare_run J F with_randomx a z = (r, w)" by (cases "prepare_run J F with_randomx a z")
  then show ?thesis
    by (auto simp: minerby_main_def main_run_def catchR_def bindR_def
        split: prod.splits sum.splits fault.splits dest: cmd_run_codes)
qed



end
