(* ===== verification/Http_Stop.thy ===== *)
theory Http_Stop
  imports Http
begin

text \<open>
  Stopping the metrics endpoint: \<open>HttpServer::run\<close> on its thread and \<open>HttpServer::stop\<close> on the caller's,
  one step per access to the state they share. \<open>accept\<close> and \<open>recv\<close> block, and the code sets no time limit on
  either: \<open>returns t w\<close> tells whether the call on the descriptor \<open>t\<close> can return in the world \<open>w\<close>.
\<close>

section \<open>Definitions\<close>

datatype srv_pc = At_test | At_read | In_accept i32 | At_retest | Serving i32 | Ended

datatype stop_pc = Not_called | At_close | At_forget | At_join | Returned

record 'o http_sys =
  hm_server :: HttpServer
  hm_srv :: srv_pc
  hm_stop :: stop_pc
  hm_world :: 'o

text \<open>A step of the server thread; \<open>None\<close> when it is blocked or has ended.\<close>

definition server_step ::
    "'o listen_api \<Rightarrow> (i32 \<Rightarrow> 'o \<Rightarrow> bool) \<Rightarrow> ('o \<Rightarrow> string \<times> 'o) \<Rightarrow> 'o http_sys \<Rightarrow> 'o http_sys option" where
  "server_step L returns body_provider s =
     (case hm_srv s of
        At_test \<Rightarrow> Some (s\<lparr>hm_srv := (if hs_running (hm_server s) then At_read else Ended)\<rparr>)
      | At_read \<Rightarrow> Some (s\<lparr>hm_srv := In_accept (hs_listen_sock (hm_server s))\<rparr>)
      | In_accept ls \<Rightarrow>
          if returns ls (hm_world s) then
            (let (c, w) = ls_accept L ls (hm_world s)
             in Some (s\<lparr>hm_srv := (if c = kInvalid then At_retest else Serving c), hm_world := w\<rparr>))
          else None
      | At_retest \<Rightarrow> Some (s\<lparr>hm_srv := (if hs_running (hm_server s) then At_test else Ended)\<rparr>)
      | Serving c \<Rightarrow>
          if returns c (hm_world s) then
            Some (s\<lparr>hm_srv := At_test, hm_world := serve L body_provider c (hm_world s)\<rparr>)
          else None
      | Ended \<Rightarrow> None)"

text \<open>A step of \<open>stop\<close>; joining is possible once the thread has ended.\<close>

definition stop_step :: "'o listen_api \<Rightarrow> 'o http_sys \<Rightarrow> 'o http_sys option" where
  "stop_step L s =
     (case hm_stop s of
        Not_called \<Rightarrow>
          if hs_running (hm_server s) then
            Some (s\<lparr>hm_server := (hm_server s)\<lparr>hs_running := False\<rparr>,
                    hm_stop := (if hs_listen_sock (hm_server s) \<noteq> kInvalid then At_close else At_join)\<rparr>)
          else Some (s\<lparr>hm_stop := Returned\<rparr>)
      | At_close \<Rightarrow>
          Some (s\<lparr>hm_world := ls_close L (hs_listen_sock (hm_server s)) (hm_world s), hm_stop := At_forget\<rparr>)
      | At_forget \<Rightarrow>
          Some (s\<lparr>hm_server := (hm_server s)\<lparr>hs_listen_sock := kInvalid\<rparr>, hm_stop := At_join\<rparr>)
      | At_join \<Rightarrow> if hm_srv s = Ended then Some (s\<lparr>hm_stop := Returned\<rparr>) else None
      | Returned \<Rightarrow> None)"

text \<open>An interleaving of the two threads; a step that is not possible leaves the state as it is.\<close>

datatype http_event = Server_steps | Stop_steps

fun http_interleave ::
    "'o listen_api \<Rightarrow> (i32 \<Rightarrow> 'o \<Rightarrow> bool) \<Rightarrow> ('o \<Rightarrow> string \<times> 'o) \<Rightarrow> http_event list \<Rightarrow> 'o http_sys \<Rightarrow> 'o http_sys" where
  "http_interleave L returns body_provider [] s = s"
| "http_interleave L returns body_provider (x # xs) s =
     http_interleave L returns body_provider xs
       (case (case x of Server_steps \<Rightarrow> server_step L returns body_provider s | Stop_steps \<Rightarrow> stop_step L s) of
          None \<Rightarrow> s | Some s' \<Rightarrow> s')"

section \<open>Winding down\<close>

text \<open>How far the thread is from its end once the flag is cleared.\<close>

fun srv_rank :: "srv_pc \<Rightarrow> nat" where
  "srv_rank Ended = 0" | "srv_rank At_test = 1" | "srv_rank At_retest = 1" | "srv_rank (Serving c) = 2"
| "srv_rank (In_accept ls) = 3" | "srv_rank At_read = 4"

lemma server_step_down:
  assumes "\<And>ls w. returns ls w" "\<not> hs_running (hm_server s)"
  shows "hm_srv s = Ended \<and> server_step L returns bp s = None \<or>
     (\<exists>s'. server_step L returns bp s = Some s' \<and> srv_rank (hm_srv s') < srv_rank (hm_srv s)
        \<and> hm_stop s' = hm_stop s \<and> hm_server s' = hm_server s)"
  using assms by (cases "hm_srv s") (auto simp: server_step_def split: prod.splits)

text \<open>The rest of the server thread's work once \<open>stop\<close> has cleared the flag.\<close>

lemma server_ends:
  assumes "\<And>ls w. returns ls w" "\<not> hs_running (hm_server s)" "srv_rank (hm_srv s) \<le> n"
  shows "\<exists>s'. http_interleave L returns bp (replicate n Server_steps) s = s' \<and> hm_srv s' = Ended
     \<and> hm_stop s' = hm_stop s"
  using assms(2,3)
proof (induction n arbitrary: s)
  case 0
  then show ?case by (cases "hm_srv s") auto
next
  case (Suc n)
  show ?case
  proof (cases "hm_srv s = Ended")
    case True
    then have "server_step L returns bp s = None" by (simp add: server_step_def)
    then show ?thesis using Suc.IH [of s] Suc.prems True by simp
  next
    case False
    then obtain s1 where "server_step L returns bp s = Some s1" "srv_rank (hm_srv s1) < srv_rank (hm_srv s)"
      "hm_stop s1 = hm_stop s" "hm_server s1 = hm_server s"
      using server_step_down [of returns s L bp] assms(1) Suc.prems(1) by blast
    then show ?thesis using Suc.IH [of s1] Suc.prems by simp
  qed
qed

section \<open>Properties\<close>



text \<open>
  Stopping the endpoint can hang. If closing a descriptor does not wake a thread that waits in \<open>accept\<close> on it,
  which POSIX leaves open and Linux does not do, and no client connects, then a server thread that is in
  \<open>accept\<close> when \<open>stop\<close> is called stays there: under every interleaving \<open>stop\<close> never returns. The same holds
  of a thread in \<open>recv\<close> on the connection of a client that sends nothing.
\<close>

theorem http_stop_hangs:
  fixes s :: "'o http_sys"
  assumes "hm_srv s = In_accept ls \<or> hm_srv s = Serving ls" "\<not> returns ls (hm_world s)" "hm_stop s = Not_called" "hs_running (hm_server s)"
    and "\<And>t w. returns ls (ls_close L t w) = returns ls w"
  shows "hm_stop (http_interleave L returns bp xs s) \<noteq> Returned"
proof -
  define stuck where "stuck u \<longleftrightarrow> (hm_srv u = In_accept ls \<or> hm_srv u = Serving ls) \<and> \<not> returns ls (hm_world u) \<and> hm_stop u \<noteq> Returned
    \<and> (hm_stop u = Not_called \<longrightarrow> hs_running (hm_server u))" for u :: "'o http_sys"
  have "stuck (http_interleave L returns bp xs u)" if "stuck u" for u
    using that
  proof (induction xs arbitrary: u)
    case (Cons x xs)
    have "server_step L returns bp u = None" using Cons.prems by (auto simp: stuck_def server_step_def)
    moreover have "stop_step L u = Some u' \<Longrightarrow> stuck u'" for u'
      using Cons.prems assms(5) by (cases "hm_stop u") (auto simp: stuck_def stop_step_def split: if_splits)
    ultimately show ?case using Cons by (cases x) (auto split: option.split)
  qed simp
  moreover have "stuck s" using assms by (simp add: stuck_def)
  ultimately show ?thesis by (simp add: stuck_def)
qed

theorem http_stop_hangs_witness:
  "hm_stop (http_interleave port_api (\<lambda>ls w. requests w \<noteq> []) (\<lambda>w. (''m'', w)) (replicate 9 Stop_steps)
     \<lparr>hm_server = \<lparr>hs_port = 9100, hs_running = True, hs_listen_sock = 3\<rparr>, hm_srv = In_accept 3, hm_stop = Not_called,
      hm_world = \<lparr>requests = [], replies = [], sockets_held = [3], port_taken = False\<rparr>\<rparr>) \<noteq> Returned"
  by (rule http_stop_hangs [where ls = 3]) (simp_all add: port_api_def)

end
