(* ===== verification/Known_Answers.thy ===== *)
theory Known_Answers
  imports Stratum
begin

text \<open>
  The known answers of the unit tests under \<open>tests/\<close>, evaluated on the model: the digest of \<open>abc\<close> in
  \<open>test_sha256.cpp\<close>, the strings of \<open>test_hex.cpp\<close>, the targets of \<open>test_target.cpp\<close> and
  \<open>test_monero.cpp\<close>, the extranonces and the header of \<open>test_stratum.cpp\<close>.
\<close>

definition string_bytes :: "string \<Rightarrow> bytes" where
  "string_bytes s = map of_char s"

definition sha_hex :: "string \<Rightarrow> string res" where
  "sha_hex s = bindR (sha256 (string_bytes s)) (\<lambda>d. Inr (to_hex d))"

text \<open>The padded block of \<open>abc\<close>, its schedule, and the registers after each half of the rounds.\<close>

definition abc_block :: bytes where
  "abc_block = string_bytes ''abc'' @ [0x80] @ replicate 59 0 @ [24]"

definition abc_words :: "u32 list" where
  "abc_words =
     [0x61626380, 0x00000000, 0x00000000, 0x00000000, 0x00000000, 0x00000000, 0x00000000, 0x00000000,
      0x00000000, 0x00000000, 0x00000000, 0x00000000, 0x00000000, 0x00000000, 0x00000000, 0x00000018,
      0x61626380, 0x000f0000, 0x7da86405, 0x600003c6, 0x3e9d7b78, 0x0183fc00, 0x12dcbfdb, 0xe2e2c38e,
      0xc8215c1a, 0xb73679a2, 0xe5bc3909, 0x32663c5b, 0x9d209d67, 0xec8726cb, 0x702138a4, 0xd3b7973b,
      0x93f5997f, 0x3b68ba73, 0xaff4ffc1, 0xf10a5c62, 0x0a8b3996, 0x72af830a, 0x9409e33e, 0x24641522,
      0x9f47bf94, 0xf0a64f5a, 0x3e246a79, 0x27333ba3, 0x0c4763f2, 0x840abf27, 0x7a290d5d, 0x065c43da,
      0xfb3e89cb, 0xcc7617db, 0xb9e66c34, 0xa9993667, 0x84badedd, 0xc21462bc, 0x1487472c, 0xb20f7a99,
      0xef57b9cd, 0xebe6b238, 0x9fe3095e, 0x78bc8d4b, 0xa43fcf15, 0x668b2ff8, 0xeeaba2cc, 0x12b1edeb]"

lemma abc_schedule: "schedule abc_block = abc_words"
  by code_simp

definition abc_regs :: regs where
  "abc_regs = (0x506e3058, 0xd39a2165, 0x04d24d6c, 0xb85e2ce9, 0x5ef50f24, 0xfb121210, 0x948d25b6, 0x961f4894)"

lemma abc_rounds_0:
  "foldl (round_step abc_words) (load_regs fips_H0) [0..<16] =
     (0xb0fa238e, 0xc0645fde, 0xd932eb16, 0x87912990, 0x07590dcd, 0x0b92f20c, 0x745a48de, 0x1e578218)"
  by code_simp

lemma abc_rounds_1:
  "foldl (round_step abc_words) (0xb0fa238e, 0xc0645fde, 0xd932eb16, 0x87912990, 0x07590dcd, 0x0b92f20c, 0x745a48de, 0x1e578218) [16..<32] =
     (0x73b33bf5, 0xea992a22, 0xa0060b30, 0x363482c9, 0xba591112, 0x0109ab3a, 0xade79437, 0x6112a3b7)"
  by (simp add: upt_rec_numeral K_def abc_words_def rotr_def)

lemma abc_rounds_2:
  "foldl (round_step abc_words) (0x73b33bf5, 0xea992a22, 0xa0060b30, 0x363482c9, 0xba591112, 0x0109ab3a, 0xade79437, 0x6112a3b7) [32..<48] =
     (0x4172328d, 0xa14c14b0, 0x72ab4b91, 0x26628815, 0xfecf0bc6, 0xd57b94a9, 0xb7755da1, 0xa80f11f0)"
  by (simp add: upt_rec_numeral K_def abc_words_def rotr_def)

lemma abc_rounds_3:
  "foldl (round_step abc_words) (0x4172328d, 0xa14c14b0, 0x72ab4b91, 0x26628815, 0xfecf0bc6, 0xd57b94a9, 0xb7755da1, 0xa80f11f0) [48..<64] =
     (0x506e3058, 0xd39a2165, 0x04d24d6c, 0xb85e2ce9, 0x5ef50f24, 0xfb121210, 0x948d25b6, 0x961f4894)"
  by (simp add: upt_rec_numeral K_def abc_words_def rotr_def)

lemma abc_pad: "fips_pad (string_bytes ''abc'') = abc_block"
proof -
  have "length_bytes 24 = replicate 7 0 @ [24]" by code_simp
  then have "be_bytes 8 24 = replicate 7 0 @ [24]" using length_bytes_be [of 24] by simp
  moreover have "replicate 52 0 @ replicate 7 0 = replicate 59 (0 :: u8)" by (simp flip: replicate_add)
  ultimately show ?thesis by (simp add: fips_pad_def abc_block_def string_bytes_def)
qed

lemma abc_compress: "fips_compress fips_H0 abc_block = add_regs fips_H0 abc_regs"
proof -
  have "length abc_block = 64" by (simp add: abc_block_def string_bytes_def)
  then have "foldl (fips_round abc_block) r [0..<64] = foldl (round_step abc_words) r [0..<64]" for r
    by (simp add: foldl_round_fips flip: abc_schedule)
  moreover have "[0..<64] = [0..<16] @ [16..<32] @ [32..<48] @ [48..<64]"
    using upt_add_eq_append [of 0 16 48] upt_add_eq_append [of 16 32 32] upt_add_eq_append [of 32 48 16]
    by simp
  ultimately show ?thesis
    by (simp only: fips_compress_def foldl_append abc_rounds_0 abc_rounds_1 abc_rounds_2 abc_rounds_3 abc_regs_def)
qed

lemma sha256_answer:
  "sha_hex ''abc'' = Inr ''ba7816bf8f01cfea414140de5dae2223b00361a396177a9cb410ff61f20015ad''"
proof -
  have l: "length abc_block = 64" by (simp add: abc_block_def string_bytes_def)
  have "blocks abc_block = [abc_block]" using l by (simp add: blocks.simps [of abc_block] blocks.simps [of "[]"])
  then have "fips_sha256 (string_bytes ''abc'') = state_bytes (add_regs fips_H0 abc_regs)"
    by (simp add: fips_sha256_def abc_pad abc_compress state_bytes_be abc_regs_def)
  moreover have "to_hex (state_bytes (add_regs fips_H0 abc_regs)) = ''ba7816bf8f01cfea414140de5dae2223b00361a396177a9cb410ff61f20015ad''" by code_simp
  ultimately show ?thesis by (simp add: sha_hex_def sha256_fips del: to_hex.simps)
qed

lemma hex_answers:
  "to_hex [0x00, 0x01, 0x7f, 0x80, 0xff, 0xde, 0xad, 0xbe, 0xef] = ''00017f80ffdeadbeef''"
  "from_hex ''00017f80ffdeadbeef'' = Inr [0x00, 0x01, 0x7f, 0x80, 0xff, 0xde, 0xad, 0xbe, 0xef]"
  "isl (from_hex ''abc'')" "isl (from_hex ''zz'')"
  by code_simp+

lemma be32_answers:
  "be32_from_hex ''00000001'' = Inr 1" "be32_from_hex ''deadbeef'' = Inr 0xdeadbeef"
  "be32_from_hex ''1d00ffff'' = Inr 0x1d00ffff" "isl (be32_from_hex ''00ff'')"
  by code_simp+

definition classic_target :: Hash256 where
  "classic_target = replicate 26 0 @ [0xff, 0xff] @ replicate 4 0"

lemma target_from_compact_answer: "target_from_compact 0x1d00ffff = classic_target"
  by code_simp

lemma target_from_difficulty_answer: "target_from_difficulty (Fin 1) = Inr classic_target"
proof -
  have "rnd 4294901760 = Fin 4294901760" using rnd_int_exact [of 4294901760] by simp
  then have "to_u64 (ddiv (Fin 4294901760) (Fin 1)) = Inr 4294901760" by simp
  moreover have "diff_loop 6 (Fin 1) = (6, Fin 1)" by (simp add: numeral_eq_Suc dlt_def)
  ultimately obtain t where t: "target_from_difficulty (Fin 1) = Inr t" "length t = 32"
      "le_value t = 4294901760 * 2 ^ 192"
    using target_from_difficulty_pos [of "Fin 1" 6 "Fin 1" 4294901760] by (auto simp: dlt_def)
  have "length classic_target = 32" by (simp add: classic_target_def)
  moreover have "le_value classic_target = 4294901760 * 2 ^ 192"
    unfolding classic_target_def by (simp add: le_value_append)
  ultimately have "t = classic_target" using t(2,3) by (intro le_value_inj) simp_all
  with t(1) show ?thesis by simp
qed

lemma meets_target_answers:
  "meets_target (replicate 32 0) classic_target" "\<not> meets_target (replicate 32 0xff) classic_target"
  "meets_target classic_target classic_target"
  "\<not> meets_target (classic_target[27 := 0xff, 28 := 1]) classic_target"
  by code_simp+

lemma monero_target_answers:
  "monero_target_from_hex ''ffffffffffffff7f'' = Inr (replicate 24 0 @ replicate 7 0xff @ [0x7f])"
  "monero_target_from_hex (concat (replicate 32 ''aa'')) = Inr (replicate 32 0xaa)"
  by code_simp+

lemma extranonce2_answers:
  "encode_extranonce2 0x0102 4 = Inr ''00000102''" "encode_extranonce2 0xff 2 = Inr ''00ff''"
  "encode_extranonce2 0 4 = Inr ''00000000''"
  by code_simp+

text \<open>The header of the test job, and the same job with a previous hash that is no hex string.\<close>

definition test_job :: StratumJob where
  "test_job = StratumJob_init\<lparr>sj_job_id := ''j'', prevhash := replicate 64 (CHR ''0''), coinb1 := ''abcdef01'',
     coinb2 := ''12345678'', merkle_branch := [], version := ''20000000'', nbits := ''1d00ffff'', ntime := ''5e0f1a2b''\<rparr>"

lemma build_work_answers:
  "\<exists>g. build_work test_job ''cafe'' ''00000001'' (Fin 1) MiningJob_init = Inr (True, g) \<and>
     length (blob g) = 80 \<and> nonce_offset g = 76 \<and> blob g ! 0 = 0 \<and> blob g ! 3 = 0x20 \<and>
     drop 72 (blob g) = [0xff, 0xff, 0, 0x1d, 0, 0, 0, 0] \<and>
     job_id g = ''j'' \<and> extranonce2_hex g = ''00000001'' \<and> ntime_hex g = ''5e0f1a2b'' \<and> target g = classic_target"
proof -
  have fields: "hex_any ''abcdef01'' = Some [0xab, 0xcd, 0xef, 0x01]" "hex_any ''12345678'' = Some [0x12, 0x34, 0x56, 0x78]"
    "hex_any ''cafe'' = Some [0xca, 0xfe]" "hex_any ''00000001'' = Some [0, 0, 0, 1]"
    "hex_field 4 ''20000000'' = Some [0x20, 0, 0, 0]" "hex_field 4 ''1d00ffff'' = Some [0x1d, 0, 0xff, 0xff]"
    "hex_field 4 ''5e0f1a2b'' = Some [0x5e, 0x0f, 0x1a, 0x2b]"
    "hex_field 32 (replicate 64 (CHR ''0'')) = Some (replicate 32 0)"
    by code_simp+
  have "length (swap_words (replicate 32 0)) = 32" by code_simp
  then obtain hdr where "work_header test_job ''cafe'' ''00000001'' = Some hdr" "length hdr = 80" "hdr ! 0 = 0" "hdr ! 3 = 0x20"
    "drop 72 hdr = [0xff, 0xff, 0, 0x1d, 0, 0, 0, 0]"
    by (simp add: work_header_def test_job_def fields)
  then show ?thesis
    using build_work_accepts [OF _ target_from_difficulty_answer, of test_job "''cafe''" "''00000001''" hdr MiningJob_init]
    by (simp add: test_job_def)
qed

lemma build_work_refuses:
  "build_work (test_job\<lparr>prevhash := ''xyz''\<rparr>) ''cafe'' ''0001'' (Fin 1) MiningJob_init = Inr (False, MiningJob_init)"
proof -
  have "hex_field 32 ''xyz'' = None" by code_simp
  then show ?thesis by (intro build_work_rejects) (auto simp: work_header_def bind_eq_None_conv)
qed

end
