(* ===== verification/Spec2Isabelle.thy ===== *)
theory Spec2Isabelle
  imports Shares Stratum_Client Monero_Client Worker_Safety App_Run Command_Line Http_Stop Known_Answers
begin

text \<open>
  A verification of minerby, a CPU miner for Stratum V1 pools (double SHA-256) and Monero pools
  (RandomX), written in C++ under \<open>src/src/\<close>. Paths below are relative to that directory.

  \<^bold>\<open>The program.\<close> \<open>app/main.cpp\<close> reads a configuration (\<open>config/\<close>), makes a pool connection
  (\<open>pool/stratum_v1_client.cpp\<close> or \<open>pool/monero_client.cpp\<close>, both over \<open>net/tcp_client.cpp\<close>) and a
  pool of worker threads (\<open>miner/worker.cpp\<close>), and polls the connection once a second. A job from the
  pool becomes a \<open>MiningJob\<close>: for Stratum by parsing \<open>mining.notify\<close> and assembling coinbase, merkle
  root and header (\<open>stratum/parse.cpp\<close>, \<open>stratum/work.cpp\<close>), for Monero by decoding the blob and the
  target the pool sends (\<open>pow/target.cpp\<close>). The job callback keys the RandomX engine again when the
  seed has changed (\<open>pow/randomx_context.cpp\<close>) and hands the job to the workers; a worker scans its
  nonces with a hasher (\<open>pow/sha256d_hasher.cpp\<close>, \<open>pow/randomx_hasher.cpp\<close>) and calls back with every
  share, which is submitted over the connection. Counters (\<open>telemetry/metrics.cpp\<close>) feed a status line
  and an HTTP endpoint (\<open>telemetry/http_server.cpp\<close>); totals persist in a file
  (\<open>telemetry/stats_store.cpp\<close>).

  \<^bold>\<open>Conventions\<close> (theory Prelude). A machine integer is a word of its width. A computation that can
  throw, or whose behaviour C++ leaves undefined, has type \<open>'a res\<close>, that is \<open>fault + 'a\<close> with the
  faults \<open>Throw e\<close> and \<open>Undefined\<close>; \<open>bindR\<close>, \<open>catchR\<close>, \<open>mapR\<close> and \<open>foldR\<close> compose them, and the
  collections \<open>res_simps\<close> and \<open>ensures_rules\<close> (\<open>ensures m P\<close>: every value \<open>m\<close> returns satisfies
  \<open>P\<close>) carry the proofs over the control flow of long handlers. A class is a record, a method takes
  the record and returns the updated one, and the outside world is threaded as an argument.
  \<open>double\<close> is binary64 with correct rounding on exact rationals (theory Double), printed as the
  standard library prints it (theory Format).

  \<^bold>\<open>Code that is not part of the program\<close> is a parameter, a record of the operations that are called.
  Its documented behaviour is a locale, used as a hypothesis only where a theorem needs it, and shown
  satisfiable by an interpretation on an executable instance: the JSON library \<open>json_api\<close>
  (\<open>json_laws\<close>, \<open>json_numbers\<close>), the socket calls \<open>os_api\<close> and \<open>listen_api\<close> (\<open>sockets\<close>,
  \<open>descriptors\<close>, \<open>listen_sockets\<close>), the file system \<open>fs_api\<close> (\<open>files\<close>), the RandomX library
  \<open>randomx_api\<close> (\<open>randomx_library\<close>, and \<open>randomx_machines\<close> for the life of virtual machines), the option library
  (\<open>option_library\<close>), and \<open>host_api\<close>, the clock, the stop flag, sleeping and the hash
  counter of the running workers as the main thread sees them.

  \<^bold>\<open>Theories.\<close>

  \<^item> Hex: \<open>util/hex.hpp\<close>. Decoding inverts encoding and accepts exactly the hex strings of even length;
    32-bit fields.
  \<^item> Sha256: \<open>pow/sha256.cpp\<close>. The class with its buffer and bit count. The streaming hash equals a
    direct transcription of FIPS 180-4, however the message is cut into pieces; the padding loop ends.
    The locale \<open>absorber\<close> relates a byte-wise update to the bytes seen.
  \<^item> Double, Target: \<open>pow/target.cpp\<close>. \<open>meets_target\<close> is comparison of 256-bit numbers; targets from
    difficulty (in double arithmetic, through the change of word), from compact bits and from
    Monero's three encodings: values, monotonicity and the inputs for which a conversion is undefined.
  \<^item> Json: the library as a parameter. Stratum: \<open>stratum/*.cpp\<close>, \<open>miner/job.hpp\<close>. Parsing accepts
    exactly the well-formed messages, and \<open>build_work\<close> gives the header of the specification
    \<open>work_header\<close> or refuses.
  \<^item> Tcp: \<open>net/tcp_client.cpp\<close>. Lines are delivered whole, in order and once, \<open>send_all\<close> sends all or
    says so, both loops end, no descriptor leaks.
  \<^item> Pool: the contract of a connection (locale \<open>pool_client\<close>: after \<open>disconnect\<close> it is closed, a poll that
    reports a drop leaves it closed, and so on), which Stratum_Client, Monero_Client and the
    dispatch between them in App_Run interpret. Stratum_Client: every handler of
    \<open>pool/stratum_v1_client.cpp\<close>; extranonces are never used twice (locale \<open>job_log\<close>), what
    \<open>connect\<close> promises, which replies are lost. Monero_Client: every handler of
    \<open>pool/monero_client.cpp\<close>; only work that can be mined is handed on, no job message takes the
    connection down, the session id and the login flag agree, the spacing of keepalives.
  \<^item> Worker, Worker_Safety, Shares: \<open>miner/worker.cpp\<close>. \<open>worker_step\<close> is the loop of a worker with one
    program point per access to shared state, \<open>command\<close> the methods called by the main thread,
    \<open>reachable\<close> the states of all interleavings. An inductive invariant gives the exclusion that
    re-keying needs, the exact count of workers in flight and of hashes, that no write leaves the
    blob, and that the one step of a worker that can throw is making a hasher, which would end the
    program; a rank that falls with every step (locale \<open>winding_down\<close>) gives that pausing and stopping
    end; a second invariant follows jobs to shares. The hashing kernel is the record \<open>kernel\<close> of operations on
    the state of an engine; the locale \<open>hash_engine\<close> is what the workers rely on (a live hasher computes
    the function of the key, whatever other hashers are made, dropped or re-keyed under exclusion),
    interpreted on the SHA-256d and on the RandomX engine. Chunks partition the nonce space and report
    exactly the winners.
  \<^item> RandomX: the context, the parallel construction of the dataset (any number of threads in any
    order), the hashers: the seed given last governs every hash made afterwards.
  \<^item> Metrics, Format, Stats, Http, Config, Cli: the rolling rate stays finite, the exposition and the HTTP
    answers are well formed, totals survive saving and loading, configurations are valid or
    refused, the overrides of the command line, the estimate. Http_Stop: the server thread and \<open>stop\<close> as
    two interleaved machines with the calls that block: stopping ends when they return, and hangs when
    closing a descriptor does not wake the call that waits on it.
  \<^item> App, App_Run: \<open>app/main.cpp\<close>. The callbacks, the main loop pass by pass, shutdown, the commands and
    \<open>main\<close>. The job callback refines a run of the worker machine, so that its invariants apply while
    jobs arrive, also when keying throws and the pool stays held (the command \<open>Abandon\<close>); the watchdog, the
    bound of the reconnection delay, what shutdown leaves behind. Command_Line: the options each
    subcommand declares, their defaults, and \<open>main\<close> from its arguments to its exit code.
  \<^item> Known_Answers: the values that the unit tests under \<open>tests/\<close> expect, evaluated on the model.
  \<^item> This theory: the path of a job from the pool through the workers and back, for Stratum and for Monero,
    and the Monero job without a seed, which ends the program.

  \<^bold>\<open>Loops.\<close> Every loop of the source that ends by its own condition is a total function: the padding,
  \<open>read_line\<close> (each turn receives a byte and a buffer over \<open>2\<^sup>2\<^sup>0\<close> bytes ends it), \<open>send_all\<close> (what is left
  shrinks), the chunk of 16 nonces, the 20 polls of \<open>connect\<close>. The main loop runs until the stop flag is
  set: \<open>run_loop n\<close> is its first \<open>n\<close> passes, its first result says whether it has ended, and the theorems
  hold for every \<open>n\<close>. The worker threads and the HTTP server run until they are stopped; their states
  are those reached by any number of steps; the HTTP loop in theory Http is driven by the list of what it
  reads of the shared flag.

  \<^bold>\<open>Not modelled.\<close> Parsing of \<open>argv\<close> inside the CLI library (the parameter of
  \<open>minerby_argv\<close>), the text of log lines, the signal handlers (the stop flag is what \<open>host_api\<close>
  answers), the branches for Windows, the thread priority (\<open>util/platform.cpp\<close>), failure to create a
  thread, memory exhaustion outside the RandomX allocations, and the generated version header. The main
  loop and the HTTP server share the counters of \<open>Metrics\<close>; what a scrape does to them is in theory
  Metrics, but scrapes are not interleaved with the passes of the loop. Memory is
  sequentially consistent; the accesses of \<open>submit\<close> by worker threads while the main thread polls
  the same connection are data races in the source and are not given a meaning here.
\<close>

section \<open>From the pool to the pool\<close>

text \<open>
  What a pool does with the parameters of \<open>mining.submit\<close>: it looks up the job, assembles its header
  with the extranonces and the time, puts the bytes of the nonce field at its end and hashes.
\<close>

definition submit_params :: "string \<Rightarrow> MiningJob \<Rightarrow> u32 \<Rightarrow> string list" where
  "submit_params user job nn = [user, job_id job, extranonce2_hex job, ntime_hex job, nonce_hex nn]"

definition pool_recompute :: "(string \<rightharpoonup> StratumJob) \<Rightarrow> string \<Rightarrow> string list \<Rightarrow> bytes option" where
  "pool_recompute jobs xn1 params =
     (case params of [user, jid, xn2, nt, nn] \<Rightarrow>
        Option.bind (jobs jid) (\<lambda>sj.
        Option.bind (work_header (sj\<lparr>ntime := nt\<rparr>) xn1 xn2) (\<lambda>hdr.
        Option.bind (hex_field 4 nn) (\<lambda>nb. Some (dsha (take 76 hdr @ nb)))))
      | _ \<Rightarrow> None)"

lemma build_work_result:
  assumes "build_work sj xn1 xn2 d MiningJob_init = Inr (True, g)"
  obtains hdr t where "work_header sj xn1 xn2 = Some hdr" "length hdr = 80" "target_from_difficulty d = Inr t"
    "g = MiningJob_init\<lparr>blob := hdr, nonce_offset := 76, target := t, job_id := sj_job_id sj,
       extranonce2_hex := xn2, ntime_hex := ntime sj\<rparr>"
proof -
  obtain hdr where h: "work_header sj xn1 xn2 = Some hdr"
    using assms by (cases "work_header sj xn1 xn2") (auto simp: build_work_rejects)
  obtain t where t: "target_from_difficulty d = Inr t"
    using assms by (auto simp: build_work_def build_work_body_def catchR_eq_Inr bindR_eq_Inr bindR_eq_Inl
        split: option.splits if_splits)
  have "length hdr = 80"
    using h unfolding work_header_def hex_field_def
    by (auto simp: bind_eq_Some_conv split: option.splits if_splits)
  then show thesis using that h t assms build_work_accepts [OF h t, of MiningJob_init] by simp
qed

lemma hex_field_nonce [simp]: "hex_field 4 (nonce_hex nn) = Some (le32 nn)"
  by (simp add: hex_field_def nonce_hex_le32)



text \<open>
  The same for Monero: what a pool does with the parameters of \<open>submit\<close>. It puts the bytes of the nonce into
  the blob it issued, computes RandomX under its seed, and compares with the digest and the target.
\<close>

definition monero_params :: "string \<Rightarrow> MiningJob \<Rightarrow> u32 \<Rightarrow> bytes \<Rightarrow> (string \<times> string) list" where
  "monero_params rpc_id job nn digest =
     [(''id'', rpc_id), (''job_id'', job_id job), (''nonce'', nonce_hex nn), (''result'', to_hex digest)]"

definition monero_verify :: "(bytes \<Rightarrow> bytes) \<Rightarrow> (string \<rightharpoonup> bytes \<times> Hash256) \<Rightarrow> (string \<times> string) list \<Rightarrow> bool" where
  "monero_verify f jobs params =
     (case map snd params of [sid, jid, nn, result] \<Rightarrow>
        (case (jobs jid, hex_field 4 nn, hex_field 32 result) of
           (Some (bs, t), Some nb, Some d) \<Rightarrow> d = f (take 39 bs @ nb @ drop 43 bs) \<and> le_value d \<le> le_value t
         | _ \<Rightarrow> False)
      | _ \<Rightarrow> False)"



text \<open>
  C36: A job without a seed ends the program. The client accepts a Monero job message that has no \<open>seed_hash\<close>. When
  it is the first job, the callback keys nothing and starts the workers, and the first step of each of
  them throws, because the engine has no seed yet; an exception that leaves a thread terminates the process.
\<close>

theorem seedless_job_ends_program:
  assumes "job_fields J msg = Inr (Some job)" "job_seed J msg = Inr []"
    and "on_job (mc_cb c) = Some (on_job_cb H X order True (Fin 0))"
    and "\<not> running (ap_pool a)" "threads (ap_pool a) \<noteq> 0"
    and "pool s = ap_pool a" "ctl s = Idle" "engine_st s = (ctx, z)" "\<not> seeded ctx"
  shows "\<exists>a' s'. apply_job J c msg a = Inr (True, c\<lparr>mc_difficulty := target_to_difficulty (target job)\<rparr>, a') \<and>
     run (rx_kernel X order) (map Cmd [Start_pool, Set_begin job, Set_end]) s = Some s' \<and> pool s' = ap_pool a' \<and>
     workers s' \<noteq> [] \<and>
     (\<forall>i < length (workers s'). perform (rx_kernel X order) (Work i) s' =
        throw ''randomx: context must be seeded before creating a VM'')"
proof -
  let ?kn = "rx_kernel X order"
  obtain s' where s': "run ?kn (map Cmd [Start_pool, Set_begin job, Set_end]) s = Some s'"
    "pool s' = set_work job (ap_pool (pool_start H a))" "engine_st s' = (ctx, z)"
    "workers s' = replicate (unat (threads (ap_pool a))) Worker_init"
    using assms(4,6-8)
    by (auto simp: start_def pool_start_def on_pool_def set_work_def set_work_bump_def set_work_store_def Let_def)
  obtain a' where a': "apply_job J c msg a = Inr (True, c\<lparr>mc_difficulty := target_to_difficulty (target job)\<rparr>, a')"
    "ap_pool a' = set_work job (ap_pool (pool_start H a))"
    using assms(1-4)
    by (cases "ho_now H (ap_host (pool_start H a))")
      (auto simp: apply_job_def on_job_cb_def rekey_def forced_job_def dlt_def on_pool_def app_now_def Let_def)
  have "perform ?kn (Work i) s' = throw ''randomx: context must be seeded before creating a VM''"
    if "i < length (workers s')" for i
    using that s'(3,4) assms(9)
    by (simp add: work_of_def worker_step_def Worker_init_def renew_def rx_kernel_def RandomXHasher_new_def)
  moreover have "workers s' \<noteq> []" using s'(4) assms(5) by (simp add: unat_eq_zero)
  ultimately show ?thesis using a' s' by metis
qed

definition unkeyed_app :: "rx_world app" where
  "unkeyed_app = \<lparr>ap_pool = MinerPool_init 2 False, ap_metrics = Metrics_init 0 0,
     ap_rx = Some \<lparr>rx_opt = Options_init, rx_seed = [], seeded = False, fast = False, init_threads = 1, rx_flags = 8,
                  rx_cache = Some 1, rx_dataset = None\<rparr>,
     ap_seed = [], ap_last_job_at = 0, ap_host = rx_world_init False False\<rparr>"

theorem seedless_job_ends_program_witness:
  "\<exists>c job a' s' s. apply_job (jv_api []) c job_json unkeyed_app = Inr (True, c\<lparr>mc_difficulty := target_to_difficulty (target job)\<rparr>, a') \<and>
     run (rx_kernel rx_api (\<lambda>rs. rs)) (map Cmd [Start_pool, Set_begin job, Set_end]) s = Some s' \<and>
     perform (rx_kernel rx_api (\<lambda>rs. rs)) (Work 0) s' = throw ''randomx: context must be seeded before creating a VM''"
proof -
  obtain job where job: "job_fields (jv_api []) job_json = Inr (Some job)" using job_json_fields by blast
  let ?c = "monero_set_callbacks (MoneroClient_init ''pool'' 3333 ''u'' ''x'')
    (app_callbacks frozen_host rx_api (\<lambda>rs. rs) True (Fin 0))"
  let ?s = "system_init 2 False (the (ap_rx unkeyed_app), ap_host unkeyed_app)"
  have "on_job (mc_cb ?c) = Some (on_job_cb frozen_host rx_api (\<lambda>rs. rs) True (Fin 0))"
    by (simp add: monero_set_callbacks_def app_callbacks_def)
  moreover have "\<not> running (ap_pool unkeyed_app)" "threads (ap_pool unkeyed_app) \<noteq> 0" "pool ?s = ap_pool unkeyed_app"
    "ctl ?s = Idle" "engine_st ?s = (the (ap_rx unkeyed_app), ap_host unkeyed_app)" "\<not> seeded (the (ap_rx unkeyed_app))"
    by (simp_all add: unkeyed_app_def system_init_def MinerPool_init_def)
  ultimately show ?thesis
    using seedless_job_ends_program [OF job job_json_seed, where a = unkeyed_app and s = ?s and c = ?c] by blast
qed

text \<open>
  The order of the bytes of the nonce. Read the way the 32-bit fields of \<open>mining.notify\<close> are read, and the
  time in the same \<open>mining.submit\<close> message, the nonce field denotes the number whose bytes in the header are
  those of the hashed nonce in reverse.
\<close>

theorem nonce_field_reversed: "\<exists>v. be32_from_hex (nonce_hex nn) = Inr v \<and> le32 v = rev (le32 nn)"
  using be32_from_hex_spec [of "nonce_hex nn"] by (auto simp: nonce_hex_le32)

end
